theory Spec2Isabelle
  imports Main "HOL-Library.Char_ord" "HOL-Library.List_Lexorder" "HOL-Library.Sublist"
begin

section \<open>Joint count matrices of stereoscope: \<open>stsc/utils.py\<close>\<close>

text \<open>
  The theory embeds \<open>make_joint_matrix\<close> (lines 25 to 89) and \<open>split_joint_matrix\<close>
  (lines 91 to 142) of \<open>src/stsc/utils.py\<close>. The first builds one count matrix over the
  union of the genes of several matrices, the second cuts such a matrix into its
  constituents again.

  What the embedding takes as given:
  \<^item> \<open>make_joint_matrix\<close> receives paths and calls \<open>read_file\<close> on each. Reading is
    outside the embedding: the function modelled here starts from the list of frames that
    \<open>read_file\<close> returned, in the order of the paths.
  \<^item> A frame is a pandas \<open>DataFrame\<close> of counts: row labels (\<open>.index\<close>), column labels
    (\<open>.columns\<close>) and the cells (\<open>.values\<close>), row by row. Labels are strings, since
    line 62 concatenates each row label to a string and line 112 calls \<open>split\<close> on it.
    The cells of a frame that \<open>read_file\<close> returns are counts: 64-bit integers. The
    joint matrix is made by \<open>np.zeros\<close>, so its cells are 64-bit floating point
    numbers, and a count written into it is rounded to the nearest of them. Such a cell
    still holds a whole number, so the cells of every frame are of type \<open>int\<close>, and
    \<open>float64\<close> below is the rounding.
  \<^item> A character is a \<open>char\<close> of HOL (a code point below 256), and strings are ordered
    by code points, as Python orders them.
  \<^item> \<open>read_csv\<close> makes the column labels of a frame distinct, and a \<open>DataFrame\<close> always
    has as many rows of cells as row labels and as many cells in a row as column labels.
    The predicate \<open>frame_ok\<close> states this of a frame of counts; the functions below
    are total and do not depend on it, the theorems about cells assume it.
\<close>

subsection \<open>Frames\<close>

record frame =
  index :: "string list"
  columns :: "string list"
  values_df :: "int list list"

definition frame_ok :: "frame \<Rightarrow> bool" where
  "frame_ok t =
     (length (values_df t) = length (index t) \<and>
      list_all (\<lambda>row. length row = length (columns t)) (values_df t) \<and>
      list_all (list_all (\<lambda>v. - (2 ^ 63) \<le> v \<and> v < 2 ^ 63)) (values_df t) \<and>
      distinct (columns t))"

text \<open>
  The counts that a 64-bit floating point number holds without rounding: every whole
  number of magnitude at most \<open>2 ^ 53\<close>.
\<close>

definition cells_exact :: "frame \<Rightarrow> bool" where
  "cells_exact t = list_all (list_all (\<lambda>v. \<bar>v\<bar> \<le> 2 ^ 53)) (values_df t)"

text \<open>The exceptions that leave \<open>split_joint_matrix\<close>.\<close>

datatype error = UnboundLocalError | ValueError | OverflowError

subsection \<open>Python strings\<close>

text \<open>\<open>str(k)\<close> for an index \<open>k\<close> of \<open>enumerate\<close>: the decimal numeral.\<close>

definition digit_char :: "nat \<Rightarrow> char" where
  "digit_char d = char_of (48 + d)"

fun str :: "nat \<Rightarrow> string" where
  "str n = (if n < 10 then [digit_char n] else str (n div 10) @ [digit_char (n mod 10)])"

text \<open>
  \<open>s.split(sep)\<close> for a separator that is not empty: the pieces between the
  occurrences of \<open>sep\<close>, found from the left.
\<close>

function py_split :: "string \<Rightarrow> string \<Rightarrow> string list" where
  "py_split sep s =
     (if sep \<noteq> [] \<and> prefix sep s then [] # py_split sep (drop (length sep) s)
      else (case s of
              [] \<Rightarrow> [[]]
            | c # cs \<Rightarrow> (case py_split sep cs of
                          p # ps \<Rightarrow> (c # p) # ps
                        | [] \<Rightarrow> [[c]])))"
  by pat_completeness auto
termination
  by (relation "measure (\<lambda>(sep, s). length s)") (auto simp: prefix_def)

text \<open>\<open>s.replace(old, new)\<close> for an \<open>old\<close> that is not empty.\<close>

function py_replace :: "string \<Rightarrow> string \<Rightarrow> string \<Rightarrow> string" where
  "py_replace old new s =
     (if old \<noteq> [] \<and> prefix old s then new @ py_replace old new (drop (length old) s)
      else (case s of
              [] \<Rightarrow> []
            | c # cs \<Rightarrow> c # py_replace old new cs))"
  by pat_completeness auto
termination
  by (relation "measure (\<lambda>(old, new, s). length s)") (auto simp: prefix_def)

text \<open>
  \<open>int(s)\<close> of CPython: white space around the numeral is dropped, a sign may come
  first, and the digits may be grouped by single underscores. The white space is tab, line
  feed, vertical tab, form feed, carriage return and space, and of the code points from
  128 to 255 the next-line character 133 and the no-break space 160; the separators 28 to
  31 are not dropped. A numeral of more than 4300 digits is refused (the default limit of
  CPython from version 3.11 on). \<open>None\<close> is the \<open>ValueError\<close>.
\<close>

definition py_isspace :: "char \<Rightarrow> bool" where
  "py_isspace c = (of_char c \<in> set [9, 10, 11, 12, 13, 32, 133, 160 :: nat])"

definition py_isdigit :: "char \<Rightarrow> bool" where
  "py_isdigit c = (48 \<le> (of_char c :: nat) \<and> (of_char c :: nat) \<le> 57)"

definition py_strip :: "string \<Rightarrow> string" where
  "py_strip s = rev (dropWhile py_isspace (rev (dropWhile py_isspace s)))"

fun digits_ok :: "string \<Rightarrow> bool" where
  "digits_ok [] = False"
| "digits_ok [c] = py_isdigit c"
| "digits_ok (c # d # s) =
     (py_isdigit c \<and> (if d = CHR ''_'' then digits_ok s else digits_ok (d # s)))"

definition digits_val :: "string \<Rightarrow> int" where
  "digits_val s = foldl (\<lambda>a c. 10 * a + (of_char c - 48)) 0 (filter py_isdigit s)"

definition py_int :: "string \<Rightarrow> int option" where
  "py_int s =
     (let t = py_strip s;
          neg = (t \<noteq> [] \<and> hd t = CHR ''-'');
          u = (if t \<noteq> [] \<and> (hd t = CHR ''-'' \<or> hd t = CHR ''+'') then tl t else t)
      in if digits_ok u \<and> int (length (filter py_isdigit u)) \<le> 4300
         then Some (if neg then - digits_val u else digits_val u)
         else None)"

subsection \<open>pandas and numpy\<close>

text \<open>
  \<open>np.array(idx).astype(int)\<close> of line 125. The array of strings does not keep the
  null characters a string ends with (\<open>np_str\<close>). Every string is then converted by
  \<open>int\<close> and stored in a 64-bit cell: \<open>ValueError\<close> when \<open>int\<close> refuses the
  string, \<open>OverflowError\<close> when the number is not in the range of the cell
  (\<open>np_int\<close>). The strings are converted in order, and the first that fails ends the
  conversion.
\<close>

definition np_str :: "string \<Rightarrow> string" where
  "np_str s = rev (dropWhile (\<lambda>c. c = char_of (0 :: nat)) (rev s))"

definition np_int :: "string \<Rightarrow> error + int" where
  "np_int s =
     (case py_int (np_str s) of
        None \<Rightarrow> Inl ValueError
      | Some v \<Rightarrow> if - (2 ^ 63) \<le> v \<and> v < 2 ^ 63 then Inr v else Inl OverflowError)"

fun astype_int :: "string list \<Rightarrow> error + int list" where
  "astype_int [] = Inr []"
| "astype_int (s # ss) =
     (case np_int s of
        Inl e \<Rightarrow> Inl e
      | Inr v \<Rightarrow> (case astype_int ss of Inl e \<Rightarrow> Inl e | Inr vs \<Rightarrow> Inr (v # vs)))"

text \<open>
  The 64-bit floating point number nearest to a whole number, ties to the even
  significand of 53 bits: what a count becomes when it is written into the joint matrix.
  \<open>bit_length\<close> is the number of binary digits.
\<close>

function bit_length :: "int \<Rightarrow> nat" where
  "bit_length a = (if a \<le> 0 then 0 else Suc (bit_length (a div 2)))"
  by pat_completeness auto
termination
  by (relation "measure nat") auto

definition float64 :: "int \<Rightarrow> int" where
  "float64 v =
     (let a = \<bar>v\<bar>
      in if a \<le> 2 ^ 53 then v
         else (let e = bit_length a - 53;
                   q = a div 2 ^ e;
                   r = a mod 2 ^ e;
                   h = 2 ^ (e - 1);
                   q' = (if h < r \<or> (r = h \<and> odd q) then q + 1 else q)
               in sgn v * (q' * 2 ^ e)))"

text \<open>
  \<open>Index.union\<close> of two indexes of distinct strings, with the default \<open>sort=None\<close>:
  the left index when the right one is empty or equal to it, the right one when the left is
  empty, and otherwise the sorted union.
\<close>

definition index_union :: "string list \<Rightarrow> string list \<Rightarrow> string list" where
  "index_union self other =
     (if other = [] \<or> self = other then self
      else if self = [] then other
      else sort (remdups (self @ other)))"

text \<open>\<open>np.cumsum\<close>.\<close>

fun cumsum_from :: "int \<Rightarrow> int list \<Rightarrow> int list" where
  "cumsum_from a [] = []"
| "cumsum_from a (x # xs) = (a + x) # cumsum_from (a + x) xs"

definition np_cumsum :: "int list \<Rightarrow> int list" where
  "np_cumsum xs = cumsum_from 0 xs"

text \<open>
  \<open>np.zeros((n, m))\<close>: a matrix of 64-bit floating point zeros. Its cells stay
  floating point numbers: what \<open>loc_assign\<close> below writes into them is rounded by
  \<open>float64\<close>.
\<close>

definition np_zeros :: "nat \<Rightarrow> nat \<Rightarrow> int list list" where
  "np_zeros n m = replicate n (replicate m 0)"

text \<open>\<open>Index.get_loc\<close> on an index of distinct labels: the position of a label.\<close>

fun get_loc :: "string list \<Rightarrow> string \<Rightarrow> nat option" where
  "get_loc [] g = None"
| "get_loc (c # cs) g = (if c = g then Some 0 else map_option Suc (get_loc cs g))"

text \<open>
  \<open>jmat.loc[start:end, cols] = vals\<close> on a frame whose row labels are still the
  positions \<open>0, 1, ...\<close>: the slice takes the rows from \<open>start\<close> to \<open>end\<close>, both
  included (none when \<open>end < start\<close>), and the cell of row \<open>i\<close> of the slice at column
  \<open>cols[j]\<close> becomes \<open>vals[i][j]\<close>, rounded to the floating point number that the
  cell can hold. \<open>set_cells\<close> writes one row. Every label of
  \<open>cols\<close> is a column of \<open>jmat\<close> where the function is called (line 66 has put it into
  \<open>genes\<close>), so the branch \<open>None\<close> is never taken there.
\<close>

definition set_cells :: "string list \<Rightarrow> string list \<Rightarrow> int list \<Rightarrow> int list \<Rightarrow> int list" where
  "set_cells genes cols vrow jrow =
     fold (\<lambda>(c, v) r. case get_loc genes c of Some p \<Rightarrow> r[p := v] | None \<Rightarrow> r)
       (zip cols vrow) jrow"

definition loc_assign ::
  "string list \<Rightarrow> int \<Rightarrow> int \<Rightarrow> string list \<Rightarrow> int list list \<Rightarrow> int list list \<Rightarrow> int list list" where
  "loc_assign genes start end cols vals jmat =
     fold (\<lambda>(r, vrow) m. m[r := set_cells genes cols (map float64 vrow) (m ! r)])
       (zip (filter (\<lambda>r. start \<le> int r \<and> int r \<le> end) [0..<length jmat]) vals) jmat"

text \<open>\<open>np.unique\<close>: the distinct values, ascending.\<close>

definition np_unique :: "int list \<Rightarrow> int list" where
  "np_unique xs = sort (remdups xs)"

text \<open>Selection by a boolean mask: \<open>jmat.iloc[sel,:]\<close> and \<open>name[sel]\<close>.\<close>

definition mask_select :: "bool list \<Rightarrow> 'a list \<Rightarrow> 'a list" where
  "mask_select sel xs = map snd (filter fst (zip sel xs))"

text \<open>
  \<open>zip(*xss)\<close>: the \<open>i\<close>-th result collects the \<open>i\<close>-th elements; there are as many
  results as the shortest list has elements, and none when \<open>xss\<close> is empty.
\<close>

definition zip_star :: "'a list list \<Rightarrow> 'a list list" where
  "zip_star xss =
     (if xss = [] then []
      else map (\<lambda>i. map (\<lambda>xs. xs ! i) xss) [0..<min_list (map length xss)])"

subsection \<open>\<open>make_joint_matrix\<close>\<close>

text \<open>
  The variables of the first loop (lines 51 to 54): the frames read so far, the row
  counts (with the leading \<open>0\<close>), the row labels of the joint matrix and the genes.
\<close>

record join_state =
  mlist :: "frame list"
  start_pos :: "int list"
  index_acc :: "string list"
  genes :: "string list"

text \<open>One turn of the loop of lines 57 to 68, for the \<open>k\<close>-th frame \<open>cnt\<close>.\<close>

definition read_step :: "nat \<times> frame \<Rightarrow> join_state \<Rightarrow> join_state" where
  "read_step kc st =
     (case kc of (k, cnt) \<Rightarrow>
        \<lparr>mlist = mlist st @ [cnt],
         start_pos = start_pos st @ [int (length (index cnt))],
         index_acc = index_acc st @ map (\<lambda>x. str k @ ''&-'' @ x) (index cnt),
         genes = index_union (genes st) (columns cnt)\<rparr>)"

text \<open>One turn of the loop of lines 79 to 84.\<close>

definition fill_step :: "join_state \<Rightarrow> int list \<Rightarrow> nat \<Rightarrow> int list list \<Rightarrow> int list list" where
  "fill_step st sp k jmat =
     loc_assign (genes st) (sp ! k) (sp ! (k + 1) - 1)
       (columns (mlist st ! k)) (values_df (mlist st ! k)) jmat"

definition make_joint_matrix :: "frame list \<Rightarrow> frame" where
  "make_joint_matrix cnts =
     (let st = fold read_step (enumerate 0 cnts)
                 \<lparr>mlist = [], start_pos = [0], index_acc = [], genes = []\<rparr>;
          sp = np_cumsum (start_pos st);
          jmat = fold (fill_step st sp) [0..<length sp - 1]
                   (np_zeros (nat (last sp)) (length (genes st)))
      in \<lparr>index = index_acc st, columns = genes st, values_df = jmat\<rparr>)"

subsection \<open>\<open>split_joint_matrix\<close>\<close>

text \<open>
  Lines 111 to 113 unpack \<open>zip(*[...])\<close> into \<open>idx\<close> and \<open>name\<close>, which needs exactly
  two results. When the unpacking fails, the handler of line 114 prints and goes on, and
  line 123 reads the unbound \<open>name\<close>: \<open>UnboundLocalError\<close>. Line 125 converts the
  prefixes and raises \<open>ValueError\<close> or \<open>OverflowError\<close> at the first that is no
  numeral of a 64-bit integer. The cells of the rows are not touched.
\<close>

definition split_joint_matrix :: "frame \<Rightarrow> error + frame list" where
  "split_joint_matrix jmat =
     (case zip_star (map (py_split ''&-'') (index jmat)) of
        [idx, name] \<Rightarrow>
          (case astype_int idx of
             Inl e \<Rightarrow> Inl e
           | Inr ids \<Rightarrow>
               Inr (map (\<lambda>k. let sel = map (\<lambda>i. i = k) ids
                              in \<lparr>index = map (py_replace ''&-'' ''_'') (mask_select sel name),
                                  columns = columns jmat,
                                  values_df = mask_select sel (values_df jmat)\<rparr>)
                      (np_unique ids)))
      | _ \<Rightarrow> Inl UnboundLocalError)"

subsection \<open>Notions used to state the properties\<close>

text \<open>
  The row labels that lines 62 and 63 give the frames \<open>cnts\<close> when the first of them
  has position \<open>n\<close>.
\<close>

definition joint_labels :: "nat \<Rightarrow> frame list \<Rightarrow> string list" where
  "joint_labels n cnts =
     concat (map (\<lambda>(k, t). map (\<lambda>x. str k @ ''&-'' @ x) (index t)) (enumerate n cnts))"

text \<open>The genes after the frames \<open>cnts\<close>, starting from the genes \<open>g\<close> (line 66).\<close>

definition gene_union :: "frame list \<Rightarrow> string list \<Rightarrow> string list" where
  "gene_union cnts g = fold (\<lambda>t g. index_union g (columns t)) cnts g"

text \<open>
  A row \<open>vrow\<close> over the columns \<open>cols\<close>, written over the columns \<open>gs\<close>: the cell of
  a column that \<open>cols\<close> has, and \<open>0\<close> for every other column.
\<close>

definition zero_fill :: "string list \<Rightarrow> string list \<Rightarrow> int list \<Rightarrow> int list" where
  "zero_fill gs cols vrow = map (\<lambda>g. case get_loc cols g of Some j \<Rightarrow> vrow ! j | None \<Rightarrow> 0) gs"

text \<open>The rows of a frame of counts as the joint matrix over the columns \<open>gs\<close> holds them.\<close>

definition joint_rows :: "string list \<Rightarrow> frame \<Rightarrow> int list list" where
  "joint_rows gs t = map (\<lambda>vrow. zero_fill gs (columns t) (map float64 vrow)) (values_df t)"

text \<open>The number of rows of the frames before position \<open>k\<close>.\<close>

definition row_offset :: "frame list \<Rightarrow> nat \<Rightarrow> nat" where
  "row_offset cnts k = sum_list (map (\<lambda>t. length (index t)) (take k cnts))"

text \<open>The part of a label before its first \<open>&-\<close> (the whole label when it has none).\<close>

definition first_piece :: "string \<Rightarrow> string" where
  "first_piece x = hd (py_split ''&-'' x)"

text \<open>The file identifier of every row of the joint matrix, in the order of the rows.\<close>

definition src_ids :: "nat \<Rightarrow> frame list \<Rightarrow> int list" where
  "src_ids n cnts = concat (map (\<lambda>(k, t). replicate (length (index t)) (int k)) (enumerate n cnts))"

text \<open>
  The cell of a frame at a row position and a column label, and the cells of a frame
  under a list of column labels (\<open>df[cols].values\<close>); \<open>None\<close> where pandas raises
  for a missing row or column.
\<close>

definition cell :: "frame \<Rightarrow> nat \<Rightarrow> string \<Rightarrow> int option" where
  "cell t r g =
     (if r < length (values_df t)
      then map_option (\<lambda>p. values_df t ! r ! p) (get_loc (columns t) g)
      else None)"

definition loc_cols :: "frame \<Rightarrow> string list \<Rightarrow> int list list option" where
  "loc_cols t cols =
     map_option (\<lambda>ps. map (\<lambda>row. map (\<lambda>p. row ! p) ps) (values_df t))
       (those (map (get_loc (columns t)) cols))"

text \<open>
  A key of a joint matrix, as the specification describes it: a source index, the
  separator, and a label without separator. The index is read from the digits the key
  starts with and the label is what follows the separator; both are defined on the
  characters of the key, not through \<open>py_split\<close>. The digits are the numeral that
  \<open>str\<close> writes for the index (no leading zero), and the index is below \<open>2 ^ 63\<close>, so
  that it fits the cells of \<open>astype(int)\<close>. A joint matrix is well formed when every
  row label is such a key and it has as many rows of cells as row labels.
\<close>

definition source_index :: "string \<Rightarrow> int" where
  "source_index l = digits_val (takeWhile py_isdigit l)"

definition label_part :: "string \<Rightarrow> string" where
  "label_part l = drop 2 (dropWhile py_isdigit l)"

definition wf_key :: "string \<Rightarrow> bool" where
  "wf_key l =
     (takeWhile py_isdigit l = str (nat (source_index l)) \<and>
      source_index l < 2 ^ 63 \<and>
      prefix ''&-'' (dropWhile py_isdigit l) \<and>
      \<not> sublist ''&-'' (label_part l))"

definition wf_joint :: "frame \<Rightarrow> bool" where
  "wf_joint jmat =
     (list_all wf_key (index jmat) \<and> length (values_df jmat) = length (index jmat))"

text \<open>
  The rows of source \<open>k\<close> in a joint matrix, in the order in which the joint matrix has
  them, under their labels without the prefix.
\<close>

definition source_rows :: "frame \<Rightarrow> int \<Rightarrow> frame" where
  "source_rows jmat k =
     \<lparr>index = map label_part (filter (\<lambda>l. source_index l = k) (index jmat)),
      columns = columns jmat,
      values_df = map snd (filter (\<lambda>(l, row). source_index l = k)
                             (zip (index jmat) (values_df jmat)))\<rparr>"

section \<open>Lemmas\<close>

text \<open>
  The recursive functions are unfolded by hand, one step at a time, in the proofs below.
\<close>

declare str.simps [simp del] py_split.simps [simp del] py_replace.simps [simp del]
  bit_length.simps [simp del]

subsection \<open>\<open>split\<close> and \<open>replace\<close>\<close>

lemma py_split_Nil: "py_split sep [] = [[]]"
  by (subst py_split.simps) simp

lemma py_split_not_Nil: "py_split sep s \<noteq> []"
  by (subst py_split.simps) (auto split: list.splits)

lemma py_split_sep_free: "\<not> sublist sep s \<Longrightarrow> py_split sep s = [s]"
proof (induction sep s rule: py_split.induct)
  case (1 sep s)
  have np: "\<not> prefix sep s" using "1.prems" by auto
  show ?case
  proof (cases s)
    case Nil
    then show ?thesis by (simp add: py_split_Nil)
  next
    case (Cons c cs)
    have "\<not> sublist sep cs" using "1.prems" Cons by (auto simp: sublist_Cons_right)
    with "1.IH"(2)[OF _ Cons] np have "py_split sep cs = [cs]" by auto
    then show ?thesis using np Cons by (subst py_split.simps) simp
  qed
qed

lemma py_replace_sep_free: "\<not> sublist old s \<Longrightarrow> py_replace old new s = s"
proof (induction old new s rule: py_replace.induct)
  case (1 old new s)
  have np: "\<not> prefix old s" using "1.prems" by auto
  show ?case
  proof (cases s)
    case Nil
    then show ?thesis by (subst py_replace.simps) simp
  next
    case (Cons c cs)
    have "\<not> sublist old cs" using "1.prems" Cons by (auto simp: sublist_Cons_right)
    with "1.IH"(2)[OF _ Cons] np have "py_replace old new cs = cs" by auto
    then show ?thesis using np Cons by (subst py_replace.simps) simp
  qed
qed

lemma py_split_length_sublist: "sep \<noteq> [] \<Longrightarrow> sublist sep s \<Longrightarrow> 2 \<le> length (py_split sep s)"
proof (induction sep s rule: py_split.induct)
  case (1 sep s)
  show ?case
  proof (cases "prefix sep s")
    case True
    have "py_split sep (drop (length sep) s) \<noteq> []" by (rule py_split_not_Nil)
    then have "1 \<le> length (py_split sep (drop (length sep) s))"
      by (cases "py_split sep (drop (length sep) s)") auto
    with True "1.prems" show ?thesis by (subst py_split.simps) simp
  next
    case False
    then obtain c cs where s: "s = c # cs" using "1.prems" by (cases s) auto
    have sub: "sublist sep cs" using "1.prems" False s by (auto simp: sublist_Cons_right)
    have "2 \<le> length (py_split sep cs)" using "1.IH"(2)[OF _ s] False "1.prems"(1) sub by auto
    then show ?thesis using False s
      by (subst py_split.simps) (auto split: list.splits)
  qed
qed

lemma hd_py_split_prefix: "prefix (hd (py_split sep s)) s"
proof (induction sep s rule: py_split.induct)
  case (1 sep s)
  show ?case
  proof (cases "sep \<noteq> [] \<and> prefix sep s")
    case True
    then show ?thesis by (subst py_split.simps) simp
  next
    case False
    show ?thesis
    proof (cases s)
      case Nil
      then show ?thesis by (simp add: py_split_Nil)
    next
      case (Cons c cs)
      with "1.IH"(2)[OF False Cons] False show ?thesis
        by (subst py_split.simps) (auto split: list.splits simp: py_split_not_Nil)
    qed
  qed
qed

lemma hd_py_split_sep_free: "sep \<noteq> [] \<Longrightarrow> \<not> sublist sep (hd (py_split sep s))"
proof (induction sep s rule: py_split.induct)
  case (1 sep s)
  show ?case
  proof (cases "prefix sep s")
    case True
    with "1.prems" show ?thesis by (subst py_split.simps) simp
  next
    case False
    show ?thesis
    proof (cases s)
      case Nil
      then show ?thesis using "1.prems" by (simp add: py_split_Nil)
    next
      case (Cons c cs)
      have ih: "\<not> sublist sep (hd (py_split sep cs))"
        using "1.IH"(2)[OF _ Cons] False "1.prems" by auto
      have pre: "prefix (hd (py_split sep cs)) cs" by (rule hd_py_split_prefix)
      have hd: "hd (py_split sep s) = c # hd (py_split sep cs)"
        using False Cons by (subst py_split.simps) (auto split: list.splits simp: py_split_not_Nil)
      have "\<not> prefix sep (c # hd (py_split sep cs))"
      proof
        assume "prefix sep (c # hd (py_split sep cs))"
        moreover have "prefix (c # hd (py_split sep cs)) (c # cs)" using pre by simp
        ultimately have "prefix sep (c # cs)" by (rule prefix_order.trans)
        with False Cons show False by simp
      qed
      with ih hd show ?thesis by (simp add: sublist_Cons_right)
    qed
  qed
qed

lemma py_split_key: "CHR ''&'' \<notin> set d \<Longrightarrow> py_split ''&-'' (d @ ''&-'' @ x) = d # py_split ''&-'' x"
proof (induction d)
  case Nil
  then show ?case by (subst py_split.simps) simp
next
  case (Cons c d)
  then have "py_split ''&-'' (d @ ''&-'' @ x) = d # py_split ''&-'' x" by simp
  moreover have "\<not> prefix ''&-'' ((c # d) @ ''&-'' @ x)" using Cons.prems by auto
  ultimately show ?case by (subst py_split.simps) simp
qed

subsection \<open>Numerals: \<open>str\<close> and \<open>int\<close>\<close>

lemma isdigit_digit_char: "d < 10 \<Longrightarrow> py_isdigit (digit_char d)"
  by (simp add: py_isdigit_def digit_char_def)

lemma of_char_digit_char: "d < 10 \<Longrightarrow> of_char (digit_char d) = 48 + d"
  by (simp add: digit_char_def)

lemma of_char_digit_char_int: "d < 10 \<Longrightarrow> (of_char (digit_char d) :: int) = 48 + int d"
proof -
  assume "d < 10"
  then have "int (of_char (digit_char d)) = int (48 + d)" by (simp only: of_char_digit_char)
  then show ?thesis by (simp add: of_nat_of_char)
qed

lemma str_digits: "list_all py_isdigit (str n)"
proof (induction n rule: str.induct)
  case (1 n)
  then show ?case by (subst str.simps) (simp add: isdigit_digit_char)
qed

lemma str_not_Nil: "str n \<noteq> []"
  by (subst str.simps) simp

lemma isdigit_not_space: "py_isdigit c \<Longrightarrow> \<not> py_isspace c"
  by (auto simp: py_isdigit_def py_isspace_def)

lemma isdigit_not_sign: "py_isdigit c \<Longrightarrow> c \<noteq> CHR ''-'' \<and> c \<noteq> CHR ''+'' \<and> c \<noteq> CHR ''_'' \<and> c \<noteq> CHR ''&''"
  by (auto simp: py_isdigit_def)

lemma py_strip_digits: "list_all py_isdigit s \<Longrightarrow> py_strip s = s"
proof (cases s rule: rev_cases)
  case Nil
  then show ?thesis by (simp add: py_strip_def)
next
  case (snoc ys y)
  assume a: "list_all py_isdigit s"
  have 1: "dropWhile py_isspace s = s" using a by (cases s) (auto simp: isdigit_not_space)
  have 2: "dropWhile py_isspace (rev s) = rev s" using a snoc by (auto simp: isdigit_not_space)
  show ?thesis by (simp add: py_strip_def 1 2)
qed

lemma digits_ok_digits: "list_all py_isdigit s \<Longrightarrow> s \<noteq> [] \<Longrightarrow> digits_ok s"
  by (induction s rule: digits_ok.induct) (auto simp: isdigit_not_sign)

lemma digits_val_snoc: "py_isdigit c \<Longrightarrow> digits_val (s @ [c]) = 10 * digits_val s + (of_char c - 48)"
  by (simp add: digits_val_def)

lemma digits_val_str: "digits_val (str n) = int n"
proof (induction n rule: str.induct)
  case (1 n)
  show ?case
  proof (cases "n < 10")
    case True
    then show ?thesis
      by (subst str.simps) (simp add: digits_val_def isdigit_digit_char of_char_digit_char_int)
  next
    case False
    with 1 have "digits_val (str (n div 10)) = int (n div 10)" by simp
    moreover have "10 * int (n div 10) + int (n mod 10) = int n"
      by (metis mult_div_mod_eq of_nat_add of_nat_mult of_nat_numeral)
    ultimately show ?thesis
      using False
      by (subst str.simps) (simp add: digits_val_snoc isdigit_digit_char of_char_digit_char_int)
  qed
qed

lemma filter_digits: "list_all py_isdigit s \<Longrightarrow> filter py_isdigit s = s"
  by (induction s) auto

lemma py_int_digits:
  assumes "list_all py_isdigit s" "s \<noteq> []" "length s \<le> 4300"
  shows "py_int s = Some (digits_val s)"
proof -
  obtain c cs where s: "s = c # cs" using assms(2) by (cases s) auto
  then have c: "py_isdigit c" using assms(1) by simp
  have sign: "hd s \<noteq> CHR ''-''" "hd s \<noteq> CHR ''+''" using s c isdigit_not_sign[of c] by auto
  show ?thesis
    using assms sign
    by (simp add: py_int_def py_strip_digits digits_ok_digits filter_digits Let_def)
qed

lemma length_str: "n < 10 ^ Suc k \<Longrightarrow> length (str n) \<le> Suc k"
proof (induction k arbitrary: n)
  case 0
  then show ?case by (subst str.simps) simp
next
  case (Suc k)
  show ?case
  proof (cases "n < 10")
    case True
    then show ?thesis by (subst str.simps) simp
  next
    case False
    have "n div 10 < 10 ^ Suc k" using Suc.prems by (simp add: less_mult_imp_div_less mult.commute)
    then have "length (str (n div 10)) \<le> Suc k" by (rule Suc.IH)
    then show ?thesis using False by (subst str.simps) simp
  qed
qed

lemma length_str_int64: "n < 2 ^ 63 \<Longrightarrow> length (str n) \<le> 4300"
proof -
  assume "n < 2 ^ 63"
  then have "n < 10 ^ Suc 18" by simp
  then have "length (str n) \<le> Suc 18" by (rule length_str)
  then show ?thesis by simp
qed

lemma py_int_str: "n < 2 ^ 63 \<Longrightarrow> py_int (str n) = Some (int n)"
  by (simp add: py_int_digits str_digits str_not_Nil digits_val_str length_str_int64)

lemma np_str_digits: "list_all py_isdigit s \<Longrightarrow> np_str s = s"
proof (cases s rule: rev_cases)
  case Nil
  then show ?thesis by (simp add: np_str_def)
next
  case (snoc ys y)
  assume "list_all py_isdigit s"
  then have "py_isdigit y" using snoc by simp
  then have "y \<noteq> char_of (0 :: nat)" by (auto simp: py_isdigit_def)
  then show ?thesis using snoc by (simp add: np_str_def)
qed

lemma np_int_str: "n < 2 ^ 63 \<Longrightarrow> np_int (str n) = Inr (int n)"
  by (simp add: np_int_def np_str_digits str_digits py_int_str)

lemma astype_int_map: "map np_int xs = map Inr vs \<Longrightarrow> astype_int xs = Inr vs"
proof (induction xs arbitrary: vs)
  case Nil
  then show ?case by simp
next
  case (Cons x xs)
  then obtain v vs' where vs: "vs = v # vs'" by (cases vs) auto
  then have "np_int x = Inr v" "map np_int xs = map Inr vs'" using Cons.prems by auto
  then show ?case using Cons.IH[of vs'] vs by simp
qed


lemma float64_exact: "\<bar>v\<bar> \<le> 2 ^ 53 \<Longrightarrow> float64 v = v"
  by (simp add: float64_def Let_def)

lemma str_no_amp: "CHR ''&'' \<notin> set (str n)"
  using str_digits[of n] isdigit_not_sign[of "CHR ''&''"] by (auto simp: list_all_iff)

subsection \<open>The first loop of \<open>make_joint_matrix\<close>\<close>

lemma fold_read_step:
  "fold read_step (enumerate n cnts) st =
     \<lparr>mlist = mlist st @ cnts,
      start_pos = start_pos st @ map (\<lambda>t. int (length (index t))) cnts,
      index_acc = index_acc st @ joint_labels n cnts,
      genes = gene_union cnts (genes st)\<rparr>"
proof (induction cnts arbitrary: n st)
  case Nil
  then show ?case by (simp add: joint_labels_def gene_union_def)
next
  case (Cons t cnts)
  show ?case
    by (simp add: Cons.IH) (simp add: read_step_def joint_labels_def gene_union_def)
qed

lemma set_index_union: "set (index_union a b) = set a \<union> set b"
  by (auto simp: index_union_def)

lemma set_gene_union: "set (gene_union cnts g) = set g \<union> (\<Union>t\<in>set cnts. set (columns t))"
  unfolding gene_union_def
  by (induction cnts arbitrary: g) (auto simp: set_index_union)

lemma distinct_index_union: "distinct a \<Longrightarrow> distinct b \<Longrightarrow> distinct (index_union a b)"
  by (auto simp: index_union_def)

lemma distinct_gene_union:
  "distinct g \<Longrightarrow> list_all (\<lambda>t. distinct (columns t)) cnts \<Longrightarrow> distinct (gene_union cnts g)"
  unfolding gene_union_def
  by (induction cnts arbitrary: g) (auto simp: distinct_index_union)

lemma cumsum_from_length: "length (cumsum_from a xs) = length xs"
  by (induction xs arbitrary: a) auto

lemma cumsum_from_nth: "k < length xs \<Longrightarrow> cumsum_from a xs ! k = a + sum_list (take (Suc k) xs)"
proof (induction xs arbitrary: a k)
  case Nil
  then show ?case by simp
next
  case (Cons x xs)
  then show ?case by (cases k) (auto simp: algebra_simps)
qed

lemma sum_list_int: "sum_list (map (\<lambda>t. int (f t)) xs) = int (sum_list (map f xs))"
  by (induction xs) auto

lemma sp_nth:
  "k \<le> length cnts \<Longrightarrow>
   np_cumsum (0 # map (\<lambda>t. int (length (index t))) cnts) ! k = int (row_offset cnts k)"
proof -
  assume k: "k \<le> length cnts"
  let ?xs = "map (\<lambda>t. int (length (index t))) cnts"
  have "cumsum_from 0 (0 # ?xs) ! k = 0 + sum_list (take (Suc k) (0 # ?xs))"
    by (rule cumsum_from_nth) (use k in simp)
  also have "\<dots> = int (row_offset cnts k)"
    by (simp add: row_offset_def take_map sum_list_int)
  finally show ?thesis by (simp only: np_cumsum_def)
qed

lemma sp_length: "length (np_cumsum (0 # map f cnts)) = Suc (length cnts)"
  by (simp add: np_cumsum_def cumsum_from_length)

lemma sp_last:
  "last (np_cumsum (0 # map (\<lambda>t. int (length (index t))) cnts)) = int (row_offset cnts (length cnts))"
proof -
  let ?sp = "np_cumsum (0 # map (\<lambda>t. int (length (index t))) cnts)"
  have "?sp \<noteq> []" by (simp add: np_cumsum_def)
  then have "last ?sp = ?sp ! (length ?sp - 1)" by (rule last_conv_nth)
  then show ?thesis by (simp add: sp_length sp_nth)
qed

lemma make_joint_matrix_index: "index (make_joint_matrix cnts) = joint_labels 0 cnts"
  by (simp add: make_joint_matrix_def Let_def fold_read_step)

lemma make_joint_matrix_columns: "columns (make_joint_matrix cnts) = gene_union cnts []"
  by (simp add: make_joint_matrix_def Let_def fold_read_step)

subsection \<open>The second loop of \<open>make_joint_matrix\<close>\<close>

lemma get_loc_Some: "get_loc xs g = Some p \<Longrightarrow> p < length xs \<and> xs ! p = g"
  by (induction xs arbitrary: p) (auto split: if_splits)

lemma get_loc_None: "get_loc xs g = None \<longleftrightarrow> g \<notin> set xs"
  by (induction xs) auto

lemma get_loc_nth: "distinct xs \<Longrightarrow> p < length xs \<Longrightarrow> get_loc xs (xs ! p) = Some p"
proof (induction xs arbitrary: p)
  case Nil
  then show ?case by simp
next
  case (Cons x xs)
  then show ?case by (cases p) auto
qed

lemma set_cells_length: "length (set_cells gs cols vrow jrow) = length jrow"
proof -
  have "length (fold (\<lambda>(c, v) r. case get_loc gs c of Some p \<Rightarrow> r[p := v] | None \<Rightarrow> r) zs jrow)
          = length jrow" for zs
    by (induction zs arbitrary: jrow) (auto split: option.splits)
  then show ?thesis by (simp add: set_cells_def)
qed

lemma set_cells_nth:
  "distinct gs \<Longrightarrow> distinct cols \<Longrightarrow> length vrow = length cols \<Longrightarrow> length jrow = length gs \<Longrightarrow>
   p < length gs \<Longrightarrow>
   set_cells gs cols vrow jrow ! p =
     (case get_loc cols (gs ! p) of Some j \<Rightarrow> vrow ! j | None \<Rightarrow> jrow ! p)"
proof (induction cols arbitrary: vrow jrow)
  case Nil
  then show ?case by (simp add: set_cells_def)
next
  case (Cons c cols)
  then obtain v vs where vrow: "vrow = v # vs" by (cases vrow) auto
  have len: "length vs = length cols" using Cons.prems vrow by simp
  have dc: "distinct cols" and cn: "c \<notin> set cols" using Cons.prems by auto
  show ?case
  proof (cases "get_loc gs c")
    case None
    then have ne: "c \<noteq> gs ! p" using Cons.prems by (auto simp: get_loc_None)
    have "set_cells gs (c # cols) vrow jrow = set_cells gs cols vs jrow"
      by (simp add: set_cells_def vrow None)
    also have "\<dots> ! p = (case get_loc cols (gs ! p) of Some j \<Rightarrow> vs ! j | None \<Rightarrow> jrow ! p)"
      using Cons.IH[OF Cons.prems(1) dc len Cons.prems(4,5)] .
    finally show ?thesis using ne by (simp add: vrow split: option.splits)
  next
    case (Some q)
    have q: "q < length gs" "gs ! q = c" using get_loc_Some[OF Some] by auto
    have eq: "set_cells gs (c # cols) vrow jrow = set_cells gs cols vs (jrow[q := v])"
      by (simp add: set_cells_def vrow Some)
    have ih: "set_cells gs cols vs (jrow[q := v]) ! p =
          (case get_loc cols (gs ! p) of Some j \<Rightarrow> vs ! j | None \<Rightarrow> jrow[q := v] ! p)"
      using Cons.IH[OF Cons.prems(1) dc len _ Cons.prems(5), of "jrow[q := v]"] Cons.prems(4)
      by simp
    show ?thesis
    proof (cases "c = gs ! p")
      case True
      then have pq: "p = q" using q Cons.prems(1,5) by (simp add: nth_eq_iff_index_eq)
      have none: "get_loc cols (gs ! p) = None" using True cn by (simp add: get_loc_None)
      have "jrow[q := v] ! p = v" using pq q(1) Cons.prems(4) by simp
      then have lhs: "set_cells gs (c # cols) vrow jrow ! p = v" using eq ih none by simp
      have rhs: "get_loc (c # cols) (gs ! p) = Some 0" using True by simp
      show ?thesis unfolding lhs rhs by (simp add: vrow)
    next
      case False
      then have "p \<noteq> q" using q by auto
      then show ?thesis using False eq ih by (simp add: vrow split: option.splits)
    qed
  qed
qed

lemma set_cells_zero_fill:
  assumes "distinct gs" "distinct cols" "length vrow = length cols"
  shows "set_cells gs cols vrow (replicate (length gs) 0) = zero_fill gs cols vrow"
proof (rule nth_equalityI)
  show "length (set_cells gs cols vrow (replicate (length gs) 0)) = length (zero_fill gs cols vrow)"
    by (simp add: set_cells_length zero_fill_def)
next
  fix p assume "p < length (set_cells gs cols vrow (replicate (length gs) 0))"
  then have p: "p < length gs" by (simp add: set_cells_length)
  show "set_cells gs cols vrow (replicate (length gs) 0) ! p = zero_fill gs cols vrow ! p"
    using set_cells_nth[OF assms(1,2,3) _ p, of "replicate (length gs) 0"] p
    by (simp add: zero_fill_def split: option.splits)
qed

lemma fold_rows:
  "length B = length vs \<Longrightarrow>
   fold (\<lambda>(r, v) m. m[r := F v (m ! r)]) (zip [length A..<length A + length vs] vs) (A @ B @ C)
     = A @ map2 F vs B @ C"
proof (induction vs arbitrary: A B)
  case Nil
  then show ?case by simp
next
  case (Cons v vs)
  then obtain b B' where B: "B = b # B'" by (cases B) auto
  have len: "length B' = length vs" using Cons.prems B by simp
  have up: "[length A..<length A + length (v # vs)] = length A # [length (A @ [F v b])..<length (A @ [F v b]) + length vs]"
    by (subst upt_rec) simp
  have "fold (\<lambda>(r, v) m. m[r := F v (m ! r)])
          (zip [length (A @ [F v b])..<length (A @ [F v b]) + length vs] vs) ((A @ [F v b]) @ B' @ C)
        = (A @ [F v b]) @ map2 F vs B' @ C"
    by (rule Cons.IH[OF len])
  then show ?case unfolding up B by simp
qed

lemma filter_range: "b \<le> n \<Longrightarrow> filter (\<lambda>r. a \<le> r \<and> r < b) [0..<n] = [a..<b]"
proof (induction n arbitrary: b)
  case 0
  then show ?case by simp
next
  case (Suc n)
  show ?case
  proof (cases "b = Suc n")
    case True
    have "filter (\<lambda>r. a \<le> r \<and> r < Suc n) [0..<n] = filter (\<lambda>r. a \<le> r \<and> r < n) [0..<n]"
      by (rule filter_cong) auto
    also have "\<dots> = [a..<n]" by (rule Suc.IH) simp
    finally show ?thesis using True by auto
  next
    case False
    then have "b \<le> n" using Suc.prems by simp
    then show ?thesis using Suc.IH[of b] by auto
  qed
qed

lemma filter_slice:
  "b \<le> n \<Longrightarrow> filter (\<lambda>r. int a \<le> int r \<and> int r \<le> int b - 1) [0..<n] = [a..<b]"
proof -
  assume b: "b \<le> n"
  have "(\<lambda>r. int a \<le> int r \<and> int r \<le> int b - 1) = (\<lambda>r. a \<le> r \<and> r < b)"
    by (rule ext) auto
  then show ?thesis using filter_range[OF b] by simp
qed

lemma loc_assign_block:
  assumes "length B = length vals"
  shows "loc_assign gs (int (length A)) (int (length A + length vals) - 1) cols vals (A @ B @ C)
           = A @ map2 (\<lambda>v. set_cells gs cols (map float64 v)) vals B @ C"
proof -
  have "length A + length vals \<le> length (A @ B @ C)" using assms by simp
  then have "filter (\<lambda>r. int (length A) \<le> int r \<and> int r \<le> int (length A + length vals) - 1)
               [0..<length (A @ B @ C)] = [length A..<length A + length vals]"
    by (rule filter_slice)
  then show ?thesis
    unfolding loc_assign_def
    using fold_rows[OF assms, of "\<lambda>v. set_cells gs cols (map float64 v)" A C]
    by simp
qed

lemma map2_replicate: "length vs = l \<Longrightarrow> map2 F vs (replicate l z) = map (\<lambda>v. F v z) vs"
  by (induction vs arbitrary: l) auto

lemma row_offset_Suc: "k < length cnts \<Longrightarrow> row_offset cnts (Suc k) = row_offset cnts k + length (index (cnts ! k))"
  by (simp add: row_offset_def take_Suc_conv_app_nth)

lemma row_offset_mono: "k \<le> length cnts \<Longrightarrow> row_offset cnts k \<le> row_offset cnts (length cnts)"
proof -
  assume "k \<le> length cnts"
  have "cnts = take k cnts @ drop k cnts" by simp
  then have "row_offset cnts (length cnts) = row_offset cnts k + sum_list (map (\<lambda>t. length (index t)) (drop k cnts))"
    unfolding row_offset_def by (metis map_append sum_list.append take_all_iff order_refl)
  then show ?thesis by simp
qed

lemma frame_ok_nth: "list_all frame_ok cnts \<Longrightarrow> k < length cnts \<Longrightarrow> frame_ok (cnts ! k)"
  by (simp add: list_all_length)

lemma length_joint_rows_concat:
  "list_all frame_ok cnts \<Longrightarrow> length (concat (map (joint_rows gs) (take k cnts))) = row_offset cnts k"
proof (induction cnts arbitrary: k)
  case Nil
  then show ?case by (simp add: row_offset_def)
next
  case (Cons t cnts)
  then show ?case by (cases k) (auto simp: row_offset_def joint_rows_def frame_ok_def)
qed

lemma joint_rows_set_cells:
  assumes "frame_ok t" "distinct gs"
  shows "map (\<lambda>v. set_cells gs (columns t) (map float64 v) (replicate (length gs) 0)) (values_df t)
         = joint_rows gs t"
  unfolding joint_rows_def
proof (rule map_cong[OF refl])
  fix v assume "v \<in> set (values_df t)"
  then have "length (map float64 v) = length (columns t)"
    using assms(1) by (auto simp: frame_ok_def list_all_iff)
  moreover have "distinct (columns t)" using assms(1) by (simp add: frame_ok_def)
  ultimately show "set_cells gs (columns t) (map float64 v) (replicate (length gs) 0)
                   = zero_fill gs (columns t) (map float64 v)"
    using assms(2) by (intro set_cells_zero_fill)
qed

lemma fill_steps:
  fixes cnts :: "frame list"
  defines "st \<equiv> \<lparr>mlist = cnts, start_pos = 0 # map (\<lambda>t. int (length (index t))) cnts,
                  index_acc = joint_labels 0 cnts, genes = gene_union cnts []\<rparr>"
  defines "sp \<equiv> np_cumsum (0 # map (\<lambda>t. int (length (index t))) cnts)"
  assumes ok: "list_all frame_ok cnts" and k: "k \<le> length cnts"
  shows "fold (fill_step st sp) [0..<k]
           (np_zeros (row_offset cnts (length cnts)) (length (gene_union cnts [])))
         = concat (map (joint_rows (gene_union cnts [])) (take k cnts))
           @ replicate (row_offset cnts (length cnts) - row_offset cnts k)
               (replicate (length (gene_union cnts [])) 0)"
  using k
proof (induction k)
  case 0
  then show ?case by (simp add: np_zeros_def row_offset_def)
next
  case (Suc k)
  let ?G = "gene_union cnts []"
  let ?z = "replicate (length ?G) (0::int)"
  let ?A = "concat (map (joint_rows ?G) (take k cnts))"
  let ?t = "cnts ! k"
  let ?l = "length (index ?t)"
  let ?C = "replicate (row_offset cnts (length cnts) - row_offset cnts (Suc k)) ?z"
  have kl: "k < length cnts" using Suc.prems by simp
  have okt: "frame_ok ?t" using ok kl by (rule frame_ok_nth)
  have lenv: "length (values_df ?t) = ?l" using okt by (simp add: frame_ok_def)
  have lenA: "length ?A = row_offset cnts k" using ok by (rule length_joint_rows_concat)
  have dG: "distinct ?G"
    using ok by (intro distinct_gene_union) (auto simp: list_all_iff frame_ok_def)
  have le: "row_offset cnts (Suc k) \<le> row_offset cnts (length cnts)" using Suc.prems by (rule row_offset_mono)
  have rep: "replicate (row_offset cnts (length cnts) - row_offset cnts k) ?z = replicate ?l ?z @ ?C"
    using le by (simp add: row_offset_Suc[OF kl] replicate_add[symmetric])
  have spk: "sp ! k = int (length ?A)" unfolding sp_def lenA using kl by (simp add: sp_nth)
  have spk1: "sp ! (k + 1) - 1 = int (length ?A + length (values_df ?t)) - 1"
    unfolding sp_def lenA lenv using kl by (simp add: sp_nth row_offset_Suc)
  have "fold (fill_step st sp) [0..<Suc k] (np_zeros (row_offset cnts (length cnts)) (length ?G))
        = fill_step st sp k (?A @ replicate ?l ?z @ ?C)"
    using Suc.IH kl by (simp add: rep)
  also have "\<dots> = loc_assign ?G (int (length ?A)) (int (length ?A + length (values_df ?t)) - 1)
                      (columns ?t) (values_df ?t) (?A @ replicate ?l ?z @ ?C)"
    unfolding fill_step_def spk spk1 by (simp add: st_def)
  also have "\<dots> = ?A @ map2 (\<lambda>v. set_cells ?G (columns ?t) (map float64 v)) (values_df ?t)
                            (replicate ?l ?z) @ ?C"
    by (rule loc_assign_block) (simp add: lenv)
  also have "map2 (\<lambda>v. set_cells ?G (columns ?t) (map float64 v)) (values_df ?t) (replicate ?l ?z)
             = joint_rows ?G ?t"
    using map2_replicate[OF lenv, of "\<lambda>v. set_cells ?G (columns ?t) (map float64 v)" ?z]
      joint_rows_set_cells[OF okt dG]
    by simp
  also have "?A @ joint_rows ?G ?t @ ?C = concat (map (joint_rows ?G) (take (Suc k) cnts)) @ ?C"
    using kl by (simp add: take_Suc_conv_app_nth)
  finally show ?case .
qed

lemma make_joint_matrix_values:
  assumes "list_all frame_ok cnts"
  shows "values_df (make_joint_matrix cnts) = concat (map (joint_rows (gene_union cnts [])) cnts)"
proof -
  have "values_df (make_joint_matrix cnts)
        = fold (fill_step \<lparr>mlist = cnts, start_pos = 0 # map (\<lambda>t. int (length (index t))) cnts,
                  index_acc = joint_labels 0 cnts, genes = gene_union cnts []\<rparr>
                 (np_cumsum (0 # map (\<lambda>t. int (length (index t))) cnts))) [0..<length cnts]
           (np_zeros (row_offset cnts (length cnts)) (length (gene_union cnts [])))"
    by (simp add: make_joint_matrix_def Let_def fold_read_step sp_last sp_length)
  then show ?thesis using fill_steps[OF assms, of "length cnts"] by simp
qed

subsection \<open>\<open>split_joint_matrix\<close> on labels with a numeric prefix\<close>

lemma min_list_two: "\<forall>x\<in>set xs. 2 \<le> x \<Longrightarrow> 2 \<in> set xs \<Longrightarrow> min_list xs = (2::nat)"
proof -
  assume a: "\<forall>x\<in>set xs. 2 \<le> x" and b: "2 \<in> set xs"
  then have "xs \<noteq> []" by auto
  then have "min_list xs = Min (set xs)" by (rule min_list_Min)
  also have "\<dots> = 2" using a b by (intro Min_eqI) auto
  finally show ?thesis .
qed

lemma zip_star_two:
  "xss \<noteq> [] \<Longrightarrow> min_list (map length xss) = 2 \<Longrightarrow>
   zip_star xss = [map (\<lambda>xs. xs ! 0) xss, map (\<lambda>xs. xs ! Suc 0) xss]"
proof -
  have "[0..<2] = [0, Suc 0]" by (simp add: numeral_2_eq_2)
  then show "xss \<noteq> [] \<Longrightarrow> min_list (map length xss) = 2 \<Longrightarrow> ?thesis"
    by (simp add: zip_star_def)
qed

lemma split_general:
  assumes ne: "index j \<noteq> []"
    and ge: "\<forall>l\<in>set (index j). 2 \<le> length (py_split ''&-'' l)"
    and ex: "\<exists>l\<in>set (index j). length (py_split ''&-'' l) = 2"
    and ids: "map (\<lambda>l. np_int (py_split ''&-'' l ! 0)) (index j) = map Inr ids"
  shows "split_joint_matrix j =
     Inr (map (\<lambda>k. \<lparr>index = map (py_replace ''&-'' ''_'')
                              (mask_select (map (\<lambda>i. i = k) ids)
                                 (map (\<lambda>l. py_split ''&-'' l ! Suc 0) (index j))),
                     columns = columns j,
                     values_df = mask_select (map (\<lambda>i. i = k) ids) (values_df j)\<rparr>)
            (np_unique ids))"
proof -
  let ?parts = "map (py_split ''&-'') (index j)"
  have "min_list (map length ?parts) = 2"
    using ge ex by (intro min_list_two) (auto simp: image_iff)
  then have z: "zip_star ?parts = [map (\<lambda>xs. xs ! 0) ?parts, map (\<lambda>xs. xs ! Suc 0) ?parts]"
    using ne by (intro zip_star_two) auto
  have t: "astype_int (map (\<lambda>xs. xs ! 0) ?parts) = Inr ids"
    using ids by (intro astype_int_map) (simp add: comp_def)
  show ?thesis
    unfolding split_joint_matrix_def z using t by (simp add: comp_def Let_def)
qed

lemma split_key: "py_split ''&-'' (str k @ ''&-'' @ x) = str k # py_split ''&-'' x"
  by (rule py_split_key) (rule str_no_amp)

lemma split_key': "py_split ''&-'' (str k @ CHR ''&'' # CHR ''-'' # x) = str k # py_split ''&-'' x"
  using split_key[of k x] by simp

lemma joint_labels_Cons:
  "joint_labels n (t # cnts) = map (\<lambda>x. str n @ ''&-'' @ x) (index t) @ joint_labels (Suc n) cnts"
  by (simp add: joint_labels_def)

lemma src_ids_Cons:
  "src_ids n (t # cnts) = replicate (length (index t)) (int n) @ src_ids (Suc n) cnts"
  by (simp add: src_ids_def)

lemma joint_labels_ids:
  "n + length cnts \<le> 2 ^ 63 \<Longrightarrow>
   map (\<lambda>l. np_int (py_split ''&-'' l ! 0)) (joint_labels n cnts) = map Inr (src_ids n cnts)"
proof (induction cnts arbitrary: n)
  case Nil
  then show ?case by (simp add: joint_labels_def src_ids_def)
next
  case (Cons t cnts)
  have n: "n < 2 ^ 63" using Cons.prems by simp
  have "map (\<lambda>l. np_int (py_split ''&-'' l ! 0)) (map (\<lambda>x. str n @ ''&-'' @ x) (index t))
        = replicate (length (index t)) (Inr (int n))"
    by (simp add: comp_def split_key' np_int_str[OF n] map_replicate_const)
  moreover have "map (\<lambda>l. np_int (py_split ''&-'' l ! 0)) (joint_labels (Suc n) cnts)
        = map Inr (src_ids (Suc n) cnts)"
    using Cons.prems by (intro Cons.IH) simp
  ultimately show ?case by (simp add: joint_labels_Cons src_ids_Cons)
qed

lemma joint_labels_names:
  "map (\<lambda>l. py_split ''&-'' l ! Suc 0) (joint_labels n cnts) = concat (map (\<lambda>t. map first_piece (index t)) cnts)"
proof (induction cnts arbitrary: n)
  case Nil
  then show ?case by (simp add: joint_labels_def)
next
  case (Cons t cnts)
  have "py_split ''&-'' x \<noteq> []" for x by (rule py_split_not_Nil)
  then have "map (\<lambda>l. py_split ''&-'' l ! Suc 0) (map (\<lambda>x. str n @ ''&-'' @ x) (index t))
        = map first_piece (index t)"
    by (simp add: comp_def split_key' first_piece_def hd_conv_nth)
  then show ?case by (simp add: joint_labels_Cons Cons.IH)
qed

lemma joint_labels_set:
  "l \<in> set (joint_labels n cnts) \<Longrightarrow> \<exists>k x. l = str k @ ''&-'' @ x \<and> x \<in> (\<Union>t\<in>set cnts. set (index t))"
proof (induction cnts arbitrary: n)
  case Nil
  then show ?case by (simp add: joint_labels_def)
next
  case (Cons t cnts)
  then show ?case by (auto simp: joint_labels_Cons) blast+
qed

lemma joint_labels_mem:
  "t \<in> set cnts \<Longrightarrow> x \<in> set (index t) \<Longrightarrow> \<exists>k. str k @ ''&-'' @ x \<in> set (joint_labels n cnts)"
proof (induction cnts arbitrary: n)
  case Nil
  then show ?case by simp
next
  case (Cons t' cnts)
  then show ?case by (fastforce simp: joint_labels_Cons)
qed

subsection \<open>Masks over the rows of a joint matrix\<close>

lemma mask_select_append:
  "length sel = length xs \<Longrightarrow>
   mask_select (sel @ sel') (xs @ ys) = mask_select sel xs @ mask_select sel' ys"
  by (simp add: mask_select_def)

lemma mask_select_True: "length xs = l \<Longrightarrow> mask_select (replicate l True) xs = xs"
proof (induction xs arbitrary: l)
  case Nil
  then show ?case by (simp add: mask_select_def)
next
  case (Cons x xs)
  then show ?case by (cases l) (auto simp: mask_select_def)
qed

lemma mask_select_all_False: "\<forall>b\<in>set sel. \<not> b \<Longrightarrow> mask_select sel xs = []"
proof (induction sel arbitrary: xs)
  case Nil
  then show ?case by (simp add: mask_select_def)
next
  case (Cons b sel)
  then show ?case by (cases xs) (auto simp: mask_select_def)
qed

lemma src_ids_ge: "i \<in> set (src_ids n cnts) \<Longrightarrow> int n \<le> i"
proof (induction cnts arbitrary: n)
  case Nil
  then show ?case by (simp add: src_ids_def)
next
  case (Cons t cnts)
  then show ?case by (fastforce simp: src_ids_Cons)
qed

lemma mask_block:
  assumes "\<forall>t\<in>set cnts. length (B t) = length (index t)" "n \<le> k" "k < n + length cnts"
  shows "mask_select (map (\<lambda>i. i = int k) (src_ids n cnts)) (concat (map B cnts)) = B (cnts ! (k - n))"
  using assms
proof (induction cnts arbitrary: n)
  case Nil
  then show ?case by simp
next
  case (Cons t cnts)
  have len: "length (map (\<lambda>i. i = int k) (replicate (length (index t)) (int n))) = length (B t)"
    using Cons.prems(1) by simp
  have split: "mask_select (map (\<lambda>i. i = int k) (src_ids n (t # cnts))) (concat (map B (t # cnts)))
      = mask_select (map (\<lambda>i. i = int k) (replicate (length (index t)) (int n))) (B t)
        @ mask_select (map (\<lambda>i. i = int k) (src_ids (Suc n) cnts)) (concat (map B cnts))"
    using mask_select_append[OF len] by (simp add: src_ids_Cons)
  show ?case
  proof (cases "k = n")
    case True
    have "\<forall>b\<in>set (map (\<lambda>i. i = int k) (src_ids (Suc n) cnts)). \<not> b"
      using src_ids_ge[of _ "Suc n" cnts] True by fastforce
    then have "mask_select (map (\<lambda>i. i = int k) (src_ids (Suc n) cnts)) (concat (map B cnts)) = []"
      by (rule mask_select_all_False)
    moreover have "mask_select (map (\<lambda>i. i = int k) (replicate (length (index t)) (int n))) (B t) = B t"
      using True Cons.prems(1) by (simp add: mask_select_True)
    ultimately show ?thesis using split True by simp
  next
    case False
    then have k: "Suc n \<le> k" "k < Suc n + length cnts" using Cons.prems by auto
    have "\<forall>b\<in>set (map (\<lambda>i. i = int k) (replicate (length (index t)) (int n))). \<not> b"
      using False by auto
    then have "mask_select (map (\<lambda>i. i = int k) (replicate (length (index t)) (int n))) (B t) = []"
      by (rule mask_select_all_False)
    moreover have "mask_select (map (\<lambda>i. i = int k) (src_ids (Suc n) cnts)) (concat (map B cnts))
                   = B (cnts ! (k - Suc n))"
      using Cons.IH[OF _ k] Cons.prems(1) by simp
    moreover have "(t # cnts) ! (k - n) = cnts ! (k - Suc n)"
    proof -
      have "k - n = Suc (k - Suc n)" using k by arith
      then show ?thesis by simp
    qed
    ultimately show ?thesis using split by simp
  qed
qed

lemma src_ids_set:
  "set (src_ids n cnts) = int ` {k. n \<le> k \<and> k < n + length cnts \<and> index (cnts ! (k - n)) \<noteq> []}"
proof (induction cnts arbitrary: n)
  case Nil
  then show ?case by (simp add: src_ids_def)
next
  case (Cons t cnts)
  have a: "{k. n \<le> k \<and> k < n + length (t # cnts) \<and> index ((t # cnts) ! (k - n)) \<noteq> []}
        = (if index t \<noteq> [] then {n} else {})
          \<union> {k. Suc n \<le> k \<and> k < Suc n + length cnts \<and> index (cnts ! (k - Suc n)) \<noteq> []}"
    (is "?L = ?R")
  proof (rule set_eqI)
    fix k
    show "k \<in> ?L \<longleftrightarrow> k \<in> ?R"
    proof (cases "k = n")
      case True
      then show ?thesis by auto
    next
      case False
      have "(t # cnts) ! (k - n) = cnts ! (k - Suc n)" if "n \<le> k"
      proof -
        have "k - n = Suc (k - Suc n)" using that False by arith
        then show ?thesis by simp
      qed
      with False show ?thesis by auto
    qed
  qed
  show ?case unfolding a by (simp add: src_ids_Cons Cons.IH image_Un)
qed

lemma np_unique_src_ids:
  "np_unique (src_ids 0 cnts) = map int (filter (\<lambda>k. index (cnts ! k) \<noteq> []) [0..<length cnts])"
proof -
  let ?ks = "filter (\<lambda>k. index (cnts ! k) \<noteq> []) [0..<length cnts]"
  have s: "sorted (map int ?ks)"
    by (simp add: sorted_map sorted_wrt_filter) 
  have d: "distinct (map int ?ks)" by (simp add: distinct_map)
  have e: "set (src_ids 0 cnts) = set (map int ?ks)" by (auto simp: src_ids_set)
  have "np_unique (src_ids 0 cnts) = sorted_list_of_set (set (src_ids 0 cnts))"
    by (simp only: np_unique_def sorted_list_of_set_sort_remdups)
  also have "\<dots> = sorted_list_of_set (set (map int ?ks))" by (simp only: e)
  also have "\<dots> = map int ?ks" using s d by (rule sorted_list_of_set.idem_if_sorted_distinct)
  finally show ?thesis .
qed

lemma map_filter_nth:
  "map (\<lambda>k. F (xs ! k)) (filter (\<lambda>k. P (xs ! k)) [0..<length xs]) = map F (filter P xs)"
proof -
  have "map F (filter P (map (\<lambda>k. xs ! k) [0..<length xs]))
        = map (\<lambda>k. F (xs ! k)) (filter (\<lambda>k. P (xs ! k)) [0..<length xs])"
    by (simp add: filter_map comp_def)
  then show ?thesis by (simp add: map_nth)
qed

subsection \<open>Splitting what was joined\<close>

lemma first_piece_sep_free: "\<not> sublist ''&-'' x \<Longrightarrow> first_piece x = x"
  by (simp add: first_piece_def py_split_sep_free)

lemma py_replace_first_piece: "py_replace ''&-'' ''_'' (first_piece x) = first_piece x"
  unfolding first_piece_def
  by (rule py_replace_sep_free) (rule hd_py_split_sep_free, simp)

lemma split_join_labels:
  assumes ex: "\<exists>t\<in>set cnts. \<exists>x\<in>set (index t). \<not> sublist ''&-'' x"
    and len: "length cnts \<le> 2 ^ 63"
  shows "split_joint_matrix (make_joint_matrix cnts) =
     Inr (map (\<lambda>k. \<lparr>index = map first_piece (index (cnts ! k)),
                     columns = gene_union cnts [],
                     values_df = mask_select (map (\<lambda>i. i = int k) (src_ids 0 cnts))
                                   (values_df (make_joint_matrix cnts))\<rparr>)
            (filter (\<lambda>k. index (cnts ! k) \<noteq> []) [0..<length cnts]))"
proof -
  let ?j = "make_joint_matrix cnts"
  let ?ks = "filter (\<lambda>k. index (cnts ! k) \<noteq> []) [0..<length cnts]"
  have idx: "index ?j = joint_labels 0 cnts" by (rule make_joint_matrix_index)
  from ex obtain t x where tx: "t \<in> set cnts" "x \<in> set (index t)" "\<not> sublist ''&-'' x" by blast
  then obtain k where k: "str k @ ''&-'' @ x \<in> set (joint_labels 0 cnts)"
    using joint_labels_mem by blast
  have ne: "index ?j \<noteq> []" using k idx by auto
  have ge: "\<forall>l\<in>set (index ?j). 2 \<le> length (py_split ''&-'' l)"
  proof
    fix l assume "l \<in> set (index ?j)"
    then obtain k' x' where "l = str k' @ ''&-'' @ x'" using joint_labels_set idx by metis
    moreover have "1 \<le> length (py_split ''&-'' x')"
      using py_split_not_Nil[of "''&-''" x'] by (cases "py_split ''&-'' x'") auto
    ultimately show "2 \<le> length (py_split ''&-'' l)" by (simp add: split_key')
  qed
  have "length (py_split ''&-'' (str k @ ''&-'' @ x)) = 2"
    using tx(3) by (simp add: split_key' py_split_sep_free)
  then have ex2: "\<exists>l\<in>set (index ?j). length (py_split ''&-'' l) = 2" using k idx by metis
  have ids: "map (\<lambda>l. np_int (py_split ''&-'' l ! 0)) (index ?j) = map Inr (src_ids 0 cnts)"
    unfolding idx using len by (intro joint_labels_ids) simp
  have names: "map (\<lambda>l. py_split ''&-'' l ! Suc 0) (index ?j)
               = concat (map (\<lambda>t. map first_piece (index t)) cnts)"
    unfolding idx by (rule joint_labels_names)
  have blk: "map (py_replace ''&-'' ''_'')
               (mask_select (map (\<lambda>i. i = int k) (src_ids 0 cnts))
                  (concat (map (\<lambda>t. map first_piece (index t)) cnts)))
             = map first_piece (index (cnts ! k))" if "k \<in> set ?ks" for k
  proof -
    have "k < length cnts" using that by simp
    then have "mask_select (map (\<lambda>i. i = int k) (src_ids 0 cnts))
                  (concat (map (\<lambda>t. map first_piece (index t)) cnts))
               = map first_piece (index (cnts ! k))"
      using mask_block[of cnts "\<lambda>t. map first_piece (index t)" 0 k] by simp
    then show ?thesis by (simp add: py_replace_first_piece)
  qed
  have "split_joint_matrix ?j =
     Inr (map (\<lambda>k. \<lparr>index = map (py_replace ''&-'' ''_'')
                              (mask_select (map (\<lambda>i. i = k) (src_ids 0 cnts))
                                 (concat (map (\<lambda>t. map first_piece (index t)) cnts))),
                     columns = columns ?j,
                     values_df = mask_select (map (\<lambda>i. i = k) (src_ids 0 cnts)) (values_df ?j)\<rparr>)
            (map int ?ks))"
    using split_general[OF ne ge ex2 ids] by (simp only: names np_unique_src_ids)
  also have "\<dots> = Inr (map (\<lambda>k. \<lparr>index = map first_piece (index (cnts ! k)),
                     columns = gene_union cnts [],
                     values_df = mask_select (map (\<lambda>i. i = int k) (src_ids 0 cnts))
                                   (values_df ?j)\<rparr>) ?ks)"
    using blk by (simp add: comp_def make_joint_matrix_columns cong: map_cong)
  finally show ?thesis .
qed

lemma split_join_frames:
  assumes ok: "list_all frame_ok cnts"
    and ex: "\<exists>t\<in>set cnts. \<exists>x\<in>set (index t). \<not> sublist ''&-'' x"
    and bound: "length cnts \<le> 2 ^ 63"
  shows "split_joint_matrix (make_joint_matrix cnts) =
     Inr (map (\<lambda>t. \<lparr>index = map first_piece (index t),
                     columns = gene_union cnts [],
                     values_df = joint_rows (gene_union cnts []) t\<rparr>)
            (filter (\<lambda>t. index t \<noteq> []) cnts))"
proof -
  let ?G = "gene_union cnts []"
  let ?ks = "filter (\<lambda>k. index (cnts ! k) \<noteq> []) [0..<length cnts]"
  have len: "\<forall>t\<in>set cnts. length (joint_rows ?G t) = length (index t)"
    using ok by (auto simp: joint_rows_def frame_ok_def list_all_iff)
  have blk: "mask_select (map (\<lambda>i. i = int k) (src_ids 0 cnts)) (values_df (make_joint_matrix cnts))
             = joint_rows ?G (cnts ! k)" if "k \<in> set ?ks" for k
  proof -
    have "k < length cnts" using that by simp
    then show ?thesis
      using mask_block[OF len, of 0 k] by (simp add: make_joint_matrix_values[OF ok])
  qed
  have "split_joint_matrix (make_joint_matrix cnts) =
     Inr (map (\<lambda>k. \<lparr>index = map first_piece (index (cnts ! k)),
                     columns = ?G,
                     values_df = joint_rows ?G (cnts ! k)\<rparr>) ?ks)"
    using blk by (simp add: split_join_labels[OF ex bound] cong: map_cong)
  also have "map (\<lambda>k. \<lparr>index = map first_piece (index (cnts ! k)), columns = ?G,
                        values_df = joint_rows ?G (cnts ! k)\<rparr>) ?ks
      = map (\<lambda>t. \<lparr>index = map first_piece (index t), columns = ?G, values_df = joint_rows ?G t\<rparr>)
          (filter (\<lambda>t. index t \<noteq> []) cnts)"
    by (rule map_filter_nth)
  finally show ?thesis .
qed

subsection \<open>Reading a frame under a list of columns\<close>

lemma those_get_loc:
  "set cols \<subseteq> set gs \<Longrightarrow> those (map (get_loc gs) cols) = Some (map (\<lambda>c. the (get_loc gs c)) cols)"
proof (induction cols)
  case Nil
  then show ?case by simp
next
  case (Cons c cols)
  then obtain p where "get_loc gs c = Some p"
    using get_loc_None[of gs c] by (cases "get_loc gs c") auto
  then show ?case using Cons by simp
qed

lemma zero_fill_back:
  assumes "distinct cols" "length v = length cols" "set cols \<subseteq> set gs"
  shows "map (\<lambda>p. zero_fill gs cols v ! p) (map (\<lambda>c. the (get_loc gs c)) cols) = v"
proof (rule nth_equalityI)
  show "length (map (\<lambda>p. zero_fill gs cols v ! p) (map (\<lambda>c. the (get_loc gs c)) cols)) = length v"
    using assms(2) by simp
next
  fix i assume "i < length (map (\<lambda>p. zero_fill gs cols v ! p) (map (\<lambda>c. the (get_loc gs c)) cols))"
  then have i: "i < length cols" by simp
  then have "cols ! i \<in> set gs" using assms(3) by auto
  then obtain p where p: "get_loc gs (cols ! i) = Some p"
    using get_loc_None[of gs "cols ! i"] by (cases "get_loc gs (cols ! i)") auto
  then have pp: "p < length gs" "gs ! p = cols ! i" using get_loc_Some by auto
  have "zero_fill gs cols v ! p = v ! i"
    using pp get_loc_nth[OF assms(1) i] by (simp add: zero_fill_def)
  then show "map (\<lambda>p. zero_fill gs cols v ! p) (map (\<lambda>c. the (get_loc gs c)) cols) ! i = v ! i"
    using i p by simp
qed

lemma loc_cols_joint_rows:
  assumes "frame_ok t" "set (columns t) \<subseteq> set gs"
  shows "loc_cols \<lparr>index = ix, columns = gs, values_df = joint_rows gs t\<rparr> (columns t)
         = Some (map (map float64) (values_df t))"
proof -
  let ?ps = "map (\<lambda>c. the (get_loc gs c)) (columns t)"
  have zfb: "map (\<lambda>p. zero_fill gs (columns t) (map float64 v) ! p) ?ps = map float64 v"
    if "v \<in> set (values_df t)" for v
  proof -
    have "length (map float64 v) = length (columns t)"
      using assms(1) that by (auto simp: frame_ok_def list_all_iff)
    moreover have "distinct (columns t)" using assms(1) by (simp add: frame_ok_def)
    ultimately show ?thesis using assms(2) by (intro zero_fill_back)
  qed
  have "map (\<lambda>row. map (\<lambda>p. row ! p) ?ps) (joint_rows gs t)
        = map (\<lambda>v. map (\<lambda>p. zero_fill gs (columns t) (map float64 v) ! p) ?ps) (values_df t)"
    by (simp add: joint_rows_def comp_def)
  also have "\<dots> = map (map float64) (values_df t)"
    by (rule map_cong[OF refl]) (rule zfb)
  finally show ?thesis by (simp add: loc_cols_def those_get_loc[OF assms(2)])
qed

lemma cells_exact_float64: "cells_exact t \<Longrightarrow> map (map float64) (values_df t) = values_df t"
proof -
  assume a: "cells_exact t"
  have "map float64 v = v" if "v \<in> set (values_df t)" for v
  proof (rule map_idI)
    fix x assume "x \<in> set v"
    then have "\<bar>x\<bar> \<le> 2 ^ 53" using a that by (auto simp: cells_exact_def list_all_iff)
    then show "float64 x = x" by (rule float64_exact)
  qed
  then show ?thesis by (simp add: map_idI)
qed

lemma columns_subset_genes: "t \<in> set cnts \<Longrightarrow> set (columns t) \<subseteq> set (gene_union cnts [])"
  by (auto simp: set_gene_union)

subsection \<open>Rows of the joint matrix by position, failures of the split, keys of a joint matrix\<close>

lemma joint_labels_append:
  "joint_labels n (xs @ ys) = joint_labels n xs @ joint_labels (n + length xs) ys"
  by (simp add: joint_labels_def enumerate_append_eq)

lemma length_joint_labels: "length (joint_labels n cnts) = row_offset cnts (length cnts)"
proof (induction cnts arbitrary: n)
  case Nil
  then show ?case by (simp add: joint_labels_def row_offset_def)
next
  case (Cons t cnts)
  then show ?case by (simp add: joint_labels_Cons row_offset_def)
qed

lemma joint_labels_nth:
  assumes "k < length cnts" "r < length (index (cnts ! k))"
  shows "joint_labels 0 cnts ! (row_offset cnts k + r) = str k @ ''&-'' @ index (cnts ! k) ! r"
proof -
  have c: "cnts = take k cnts @ cnts ! k # drop (Suc k) cnts" using assms(1) by (rule id_take_nth_drop)
  have l: "length (joint_labels 0 (take k cnts)) = row_offset cnts k"
    using assms(1) by (simp add: length_joint_labels row_offset_def)
  have "joint_labels 0 cnts
        = joint_labels 0 (take k cnts) @ joint_labels k (cnts ! k # drop (Suc k) cnts)"
    using joint_labels_append[of 0 "take k cnts" "cnts ! k # drop (Suc k) cnts"] c assms(1)
    by (simp add: min_def)
  then have "joint_labels 0 cnts ! (row_offset cnts k + r)
        = joint_labels k (cnts ! k # drop (Suc k) cnts) ! r"
    using l by (simp add: nth_append)
  also have "\<dots> = str k @ ''&-'' @ index (cnts ! k) ! r"
    using assms(2) by (simp add: joint_labels_Cons nth_append)
  finally show ?thesis .
qed

lemma joint_values_nth:
  assumes ok: "list_all frame_ok cnts" and "k < length cnts" "r < length (index (cnts ! k))"
  shows "concat (map (joint_rows gs) cnts) ! (row_offset cnts k + r)
         = zero_fill gs (columns (cnts ! k)) (map float64 (values_df (cnts ! k) ! r))"
proof -
  have c: "cnts = take k cnts @ cnts ! k # drop (Suc k) cnts" using assms(2) by (rule id_take_nth_drop)
  have l: "length (concat (map (joint_rows gs) (take k cnts))) = row_offset cnts k"
    using ok by (rule length_joint_rows_concat)
  have okt: "frame_ok (cnts ! k)" using ok assms(2) by (rule frame_ok_nth)
  then have r: "r < length (values_df (cnts ! k))" using assms(3) by (simp add: frame_ok_def)
  have "concat (map (joint_rows gs) cnts)
        = concat (map (joint_rows gs) (take k cnts)) @ joint_rows gs (cnts ! k)
          @ concat (map (joint_rows gs) (drop (Suc k) cnts))"
    by (subst c) simp
  then have "concat (map (joint_rows gs) cnts) ! (row_offset cnts k + r)
        = (joint_rows gs (cnts ! k) @ concat (map (joint_rows gs) (drop (Suc k) cnts))) ! r"
    using l by (simp add: nth_append)
  also have "\<dots> = zero_fill gs (columns (cnts ! k)) (map float64 (values_df (cnts ! k) ! r))"
    using r by (simp add: nth_append joint_rows_def)
  finally show ?thesis .
qed

lemma row_offset_bound:
  assumes "k < length cnts" "r < length (index (cnts ! k))"
  shows "row_offset cnts k + r < row_offset cnts (length cnts)"
proof -
  have "row_offset cnts (Suc k) \<le> row_offset cnts (length cnts)"
    using assms(1) by (intro row_offset_mono) simp
  then show ?thesis using assms by (simp add: row_offset_Suc)
qed

lemma joint_labels_empty: "list_all (\<lambda>t. index t = []) cnts \<Longrightarrow> joint_labels n cnts = []"
  by (induction cnts arbitrary: n) (auto simp: joint_labels_def)

lemma split_no_rows: "index jmat = [] \<Longrightarrow> split_joint_matrix jmat = Inl UnboundLocalError"
  by (simp add: split_joint_matrix_def zip_star_def)

lemma src_ids_absent:
  assumes "k < length cnts" "index (cnts ! k) = []"
  shows "int k \<notin> set (src_ids 0 cnts)"
  using assms by (auto simp: src_ids_set)

lemma joint_labels_first_ids:
  assumes "length cnts \<le> 2 ^ 63"
  shows "map (\<lambda>l. np_int (first_piece l)) (joint_labels 0 cnts) = map Inr (src_ids 0 cnts)"
proof -
  have "first_piece l = py_split ''&-'' l ! 0" for l
    using py_split_not_Nil[of "''&-''" l] by (simp add: first_piece_def hd_conv_nth)
  then show ?thesis using joint_labels_ids[of 0 cnts] assms by simp
qed






lemma wf_key_split:
  assumes "wf_key l"
  shows "py_split ''&-'' l = [takeWhile py_isdigit l, label_part l]"
proof -
  let ?p = "takeWhile py_isdigit l"
  let ?r = "dropWhile py_isdigit l"
  have "prefix ''&-'' ?r" using assms by (simp add: wf_key_def)
  then obtain x where r: "?r = ''&-'' @ x" by (auto simp: prefix_def)
  then have x: "label_part l = x" by (simp add: label_part_def)
  have l: "l = ?p @ ''&-'' @ x" using r takeWhile_dropWhile_id[of py_isdigit l] by simp
  have "CHR ''&'' \<notin> set ?p"
  proof
    assume "CHR ''&'' \<in> set ?p"
    then have "py_isdigit (CHR ''&'')" by (rule set_takeWhileD[THEN conjunct2])
    then show False by (simp add: py_isdigit_def)
  qed
  then have "py_split ''&-'' (?p @ ''&-'' @ x) = ?p # py_split ''&-'' x" by (rule py_split_key)
  moreover have "py_split ''&-'' x = [x]"
    using assms x by (intro py_split_sep_free) (simp add: wf_key_def)
  ultimately show ?thesis using l x by simp
qed

lemma wf_key_int:
  assumes "wf_key l"
  shows "np_int (py_split ''&-'' l ! 0) = Inr (source_index l)"
proof -
  define n where "n = nat (source_index l)"
  have pn: "takeWhile py_isdigit l = str n"
    using assms by (simp add: wf_key_def n_def)
  have "source_index l < 2 ^ 63" using assms by (simp add: wf_key_def)
  then have nb: "n < 2 ^ 63" unfolding n_def by simp
  have "np_int (str n) = Inr (int n)" using nb by (rule np_int_str)
  then have "np_int (takeWhile py_isdigit l) = Inr (int n)" by (simp only: pn)
  moreover have "source_index l = int n"
    using pn by (simp add: source_index_def digits_val_str)
  ultimately show ?thesis by (simp add: wf_key_split[OF assms])
qed

lemma mask_select_zip:
  "mask_select (map P xs) ys = map snd (filter (\<lambda>(x, y). P x) (zip xs ys))"
proof (induction xs arbitrary: ys)
  case Nil
  then show ?case by (simp add: mask_select_def)
next
  case (Cons x xs)
  then show ?case by (cases ys) (auto simp: mask_select_def)
qed

lemma mask_select_map: "mask_select (map P xs) (map f xs) = map f (filter P xs)"
  by (induction xs) (auto simp: mask_select_def)

lemma np_unique_strict: "sorted_wrt (<) (np_unique xs) \<and> set (np_unique xs) = set xs"
  by (simp add: np_unique_def strict_sorted_iff)



lemma concat_map_filter:
  "(\<And>x. x \<in> set xs \<Longrightarrow> \<not> P x \<Longrightarrow> f x = []) \<Longrightarrow> concat (map f (filter P xs)) = concat (map f xs)"
  by (induction xs) auto

subsection \<open>The conversions at some strings and counts\<close>

text \<open>
  A prefix with a null character behind the digits, with a separator of the range 28 to
  31 in front, at and beyond the end of the range of a 64-bit integer, with white space, a
  sign and an underscore, without a digit, and with the no-break space and the next-line
  character around the digit; and counts at and beyond \<open>2 ^ 53\<close>.
\<close>

lemma np_int_examples:
  "np_int [CHR ''1'', CHR 0x00] = Inr 1"
  "np_int [CHR 0x1C, CHR ''1''] = Inl ValueError"
  "np_int ''9223372036854775807'' = Inr 9223372036854775807"
  "np_int ''9223372036854775808'' = Inl OverflowError"
  "np_int ''-9223372036854775809'' = Inl OverflowError"
  "np_int '' +1_0 '' = Inr 10"
  "np_int ''1__0'' = Inl ValueError"
  "np_int ''007'' = Inr 7"
  "np_int ''-3'' = Inr (- 3)"
  "np_int ''ab'' = Inl ValueError"
  "np_int '''' = Inl ValueError"
  "np_int ''1.0'' = Inl ValueError"
  "np_int [CHR 0xA0, CHR ''7'', CHR 0x85] = Inr 7"
  by code_simp+

lemma float64_examples:
  "float64 9007199254740992 = 9007199254740992"
  "float64 9007199254740993 = 9007199254740992"
  "float64 9007199254740994 = 9007199254740994"
  "float64 9007199254740995 = 9007199254740996"
  "float64 (- 9007199254740993) = - 9007199254740992"
  "float64 9223372036854775807 = 9223372036854775808"
  "float64 0 = 0"
  by code_simp+

lemma split_null_prefix:
  "split_joint_matrix
     \<lparr>index = [[CHR ''1'', CHR 0x00, CHR ''&'', CHR ''-'', CHR ''a'']], columns = [''g''],
      values_df = [[1]]\<rparr>
   = Inr [\<lparr>index = [''a''], columns = [''g''], values_df = [[1]]\<rparr>]"
  by code_simp


section \<open>The claims\<close>

text \<open>
  C1, as amended. For at most \<open>2 ^ 63\<close> frames that each have at least one row, whose
  row labels are free of \<open>&-\<close> and whose counts are of magnitude at most \<open>2 ^ 53\<close>,
  splitting the joint matrix gives one frame for every input frame, in the order of the
  input, and the \<open>i\<close>-th of them, read under the columns of the \<open>i\<close>-th input frame,
  has the cells of that frame. (Row labels that collide across frames do no harm: the
  theorem does not ask for their absence. No list of Python has more than \<open>2 ^ 63\<close>
  elements; beyond, the position of a frame does not fit the cells of line 125.)
\<close>

theorem roundtrip_values:
  assumes "list_all frame_ok cnts" and "cnts \<noteq> []" and "length cnts \<le> 2 ^ 63"
    and "list_all (\<lambda>t. index t \<noteq> []) cnts"
    and "list_all (\<lambda>t. list_all (\<lambda>x. \<not> sublist ''&-'' x) (index t)) cnts"
    and "list_all cells_exact cnts"
  shows "\<exists>S. split_joint_matrix (make_joint_matrix cnts) = Inr S \<and> length S = length cnts \<and>
             (\<forall>i<length cnts. loc_cols (S ! i) (columns (cnts ! i)) = Some (values_df (cnts ! i)))"
proof -
  let ?G = "gene_union cnts []"
  let ?F = "\<lambda>t. \<lparr>index = map first_piece (index t), columns = ?G, values_df = joint_rows ?G t\<rparr>"
  obtain t where t: "t \<in> set cnts" using assms(2) by (cases cnts) auto
  then obtain x where x: "x \<in> set (index t)" using assms(4) by (cases "index t") (auto simp: list_all_iff)
  have "\<not> sublist ''&-'' x" using assms(5) t x by (auto simp: list_all_iff)
  then have ex: "\<exists>t\<in>set cnts. \<exists>x\<in>set (index t). \<not> sublist ''&-'' x" using t x by blast
  have all: "filter (\<lambda>t. index t \<noteq> []) cnts = cnts" using assms(4) by (simp add: list_all_iff)
  have S: "split_joint_matrix (make_joint_matrix cnts) = Inr (map ?F cnts)"
    using split_join_frames[OF assms(1) ex assms(3)] by (simp only: all)
  have "loc_cols (map ?F cnts ! i) (columns (cnts ! i)) = Some (values_df (cnts ! i))"
    if i: "i < length cnts" for i
  proof -
    have "frame_ok (cnts ! i)" using assms(1) i by (rule frame_ok_nth)
    moreover have "set (columns (cnts ! i)) \<subseteq> set ?G" using i by (intro columns_subset_genes) simp
    moreover have "cells_exact (cnts ! i)" using assms(6) i by (simp add: list_all_length)
    ultimately show ?thesis using i by (simp add: loc_cols_joint_rows cells_exact_float64)
  qed
  then show ?thesis using S by simp
qed

text \<open>C1, witness: the theorem at the two frames of the scenario of the specification.\<close>

theorem roundtrip_values_witness:
  "list_all frame_ok
     [\<lparr>index = [''a'', ''b''], columns = [''g1'', ''g2''], values_df = [[1, 2], [3, 4]]\<rparr>,
      \<lparr>index = [''x''], columns = [''g2'', ''g3''], values_df = [[5, 6]]\<rparr>] \<and>
   list_all cells_exact
     [\<lparr>index = [''a'', ''b''], columns = [''g1'', ''g2''], values_df = [[1, 2], [3, 4]]\<rparr>,
      \<lparr>index = [''x''], columns = [''g2'', ''g3''], values_df = [[5, 6]]\<rparr>] \<and>
   (\<exists>S. split_joint_matrix
         (make_joint_matrix
            [\<lparr>index = [''a'', ''b''], columns = [''g1'', ''g2''], values_df = [[1, 2], [3, 4]]\<rparr>,
             \<lparr>index = [''x''], columns = [''g2'', ''g3''], values_df = [[5, 6]]\<rparr>]) = Inr S \<and>
       length S = 2 \<and>
       loc_cols (S ! 0) [''g1'', ''g2''] = Some [[1, 2], [3, 4]] \<and>
       loc_cols (S ! 1) [''g2'', ''g3''] = Some [[5, 6]])"
proof -
  let ?cnts = "[\<lparr>index = [''a'', ''b''], columns = [''g1'', ''g2''], values_df = [[1, 2], [3, 4]]\<rparr>,
             \<lparr>index = [''x''], columns = [''g2'', ''g3''], values_df = [[5, 6::int]]\<rparr>]"
  have 1: "list_all frame_ok ?cnts" by code_simp
  have 2: "?cnts \<noteq> []" by simp
  have 3: "length ?cnts \<le> 2 ^ 63" by simp
  have 4: "list_all (\<lambda>t. index t \<noteq> []) ?cnts" by simp
  have 5: "list_all (\<lambda>t. list_all (\<lambda>x. \<not> sublist ''&-'' x) (index t)) ?cnts"
    by (simp add: sublist_Cons_right)
  have 6: "list_all cells_exact ?cnts" by code_simp
  obtain S where S: "split_joint_matrix (make_joint_matrix ?cnts) = Inr S" "length S = length ?cnts"
     "\<forall>i<length ?cnts. loc_cols (S ! i) (columns (?cnts ! i)) = Some (values_df (?cnts ! i))"
    using roundtrip_values[OF 1 2 3 4 5 6] by blast
  have "loc_cols (S ! 0) [''g1'', ''g2''] = Some [[1, 2], [3, 4]]"
    using S(3)[rule_format, of 0] by simp
  moreover have "loc_cols (S ! 1) [''g2'', ''g3''] = Some [[5, 6]]"
    using S(3)[rule_format, of 1] by simp
  ultimately show ?thesis using 1 6 S(1,2) by (intro conjI exI[of _ S]) simp_all
qed

text \<open>
  C1 as stated fails when a frame has no row. The first frame below has none: the split
  returns one frame for the two inputs, and the result at position \<open>0\<close> holds the row of
  the second input, not the empty list of rows of the first.
\<close>

theorem roundtrip_zero_row_counterexample:
  "split_joint_matrix
     (make_joint_matrix
        [\<lparr>index = [], columns = [''g1''], values_df = []\<rparr>,
         \<lparr>index = [''x''], columns = [''g1''], values_df = [[5]]\<rparr>])
     = Inr [\<lparr>index = [''x''], columns = [''g1''], values_df = [[5]]\<rparr>]
   \<and> loc_cols \<lparr>index = [''x''], columns = [''g1''], values_df = [[5]]\<rparr> [''g1''] \<noteq> Some []"
  by code_simp

text \<open>
  C2. The scenario of the specification: the joint matrix of the two frames, and the two
  frames that the split of this joint matrix returns.
\<close>

theorem concrete_scenario:
  "make_joint_matrix
     [\<lparr>index = [''a'', ''b''], columns = [''g1'', ''g2''], values_df = [[1, 2], [3, 4]]\<rparr>,
      \<lparr>index = [''x''], columns = [''g2'', ''g3''], values_df = [[5, 6]]\<rparr>]
     = \<lparr>index = [''0&-a'', ''0&-b'', ''1&-x''], columns = [''g1'', ''g2'', ''g3''],
        values_df = [[1, 2, 0], [3, 4, 0], [0, 5, 6]]\<rparr>
   \<and> split_joint_matrix
       \<lparr>index = [''0&-a'', ''0&-b'', ''1&-x''], columns = [''g1'', ''g2'', ''g3''],
        values_df = [[1, 2, 0], [3, 4, 0], [0, 5, 6]]\<rparr>
     = Inr [\<lparr>index = [''a'', ''b''], columns = [''g1'', ''g2'', ''g3''],
             values_df = [[1, 2, 0], [3, 4, 0]]\<rparr>,
            \<lparr>index = [''x''], columns = [''g1'', ''g2'', ''g3''], values_df = [[0, 5, 6]]\<rparr>]"
  by code_simp

text \<open>
  C3, as amended. Row \<open>r\<close> of frame \<open>k\<close> is the row of the joint matrix at position
  \<open>row_offset cnts k + r\<close>, under the label of that row behind \<open>str k\<close> and the
  separator. For every column \<open>g\<close> of the joint matrix, its cell in that row is the cell
  of the frame at row \<open>r\<close> and column \<open>g\<close>, as the floating-point number nearest to it,
  when the frame has the column \<open>g\<close>, and \<open>0\<close> when it has not. When the counts of the
  frame are of magnitude at most \<open>2 ^ 53\<close> the cell is the count itself.
\<close>

theorem join_cells:
  assumes "list_all frame_ok cnts" and "k < length cnts" and "r < length (index (cnts ! k))"
    and "g \<in> set (columns (make_joint_matrix cnts))"
  shows "index (make_joint_matrix cnts) ! (row_offset cnts k + r)
           = str k @ ''&-'' @ index (cnts ! k) ! r
       \<and> cell (make_joint_matrix cnts) (row_offset cnts k + r) g
           = (if g \<in> set (columns (cnts ! k)) then map_option float64 (cell (cnts ! k) r g)
              else Some 0)
       \<and> (cells_exact (cnts ! k) \<longrightarrow>
            cell (make_joint_matrix cnts) (row_offset cnts k + r) g
              = (if g \<in> set (columns (cnts ! k)) then cell (cnts ! k) r g else Some 0))"
proof -
  let ?G = "gene_union cnts []"
  let ?t = "cnts ! k"
  have okt: "frame_ok ?t" using assms(1,2) by (rule frame_ok_nth)
  then have r: "r < length (values_df ?t)" using assms(3) by (simp add: frame_ok_def)
  have w: "length (values_df ?t ! r) = length (columns ?t)"
    using okt r by (simp add: frame_ok_def list_all_length)
  have g: "g \<in> set ?G" using assms(4) by (simp add: make_joint_matrix_columns)
  then obtain p where p: "get_loc ?G g = Some p"
    using get_loc_None[of ?G g] by (cases "get_loc ?G g") auto
  then have pp: "p < length ?G" "?G ! p = g" using get_loc_Some by auto
  have len: "length (values_df (make_joint_matrix cnts)) = row_offset cnts (length cnts)"
    using length_joint_rows_concat[OF assms(1), of ?G "length cnts"]
    by (simp add: make_joint_matrix_values[OF assms(1)])
  have lt: "row_offset cnts k + r < row_offset cnts (length cnts)"
    using assms(2,3) by (rule row_offset_bound)
  have "cell (make_joint_matrix cnts) (row_offset cnts k + r) g
        = Some (zero_fill ?G (columns ?t) (map float64 (values_df ?t ! r)) ! p)"
    using lt len p joint_values_nth[OF assms(1,2,3), of ?G]
    by (simp add: cell_def make_joint_matrix_columns make_joint_matrix_values[OF assms(1)])
  also have "\<dots> = Some (case get_loc (columns ?t) g of
                         Some j \<Rightarrow> map float64 (values_df ?t ! r) ! j | None \<Rightarrow> 0)"
    using pp by (simp add: zero_fill_def)
  also have "\<dots> = (if g \<in> set (columns ?t) then map_option float64 (cell ?t r g) else Some 0)"
  proof (cases "get_loc (columns ?t) g")
    case None
    then show ?thesis using get_loc_None[of "columns ?t" g] by simp
  next
    case (Some j)
    then have "j < length (columns ?t)" "columns ?t ! j = g" using get_loc_Some by auto
    then show ?thesis using Some r w by (auto simp: cell_def)
  qed
  finally have c: "cell (make_joint_matrix cnts) (row_offset cnts k + r) g
        = (if g \<in> set (columns ?t) then map_option float64 (cell ?t r g) else Some 0)" .
  have e: "map_option float64 (cell ?t r g) = cell ?t r g" if ex: "cells_exact ?t"
  proof (cases "cell ?t r g")
    case None
    then show ?thesis by simp
  next
    case (Some v)
    then obtain j where j: "get_loc (columns ?t) g = Some j" "v = values_df ?t ! r ! j"
      using r by (auto simp: cell_def)
    then have "j < length (values_df ?t ! r)" using get_loc_Some[of "columns ?t" g j] w by simp
    then have "\<bar>v\<bar> \<le> 2 ^ 53" using ex r j(2) by (simp add: cells_exact_def list_all_length)
    then show ?thesis using Some by (simp add: float64_exact)
  qed
  show ?thesis
    using joint_labels_nth[OF assms(2,3)] c e by (simp add: make_joint_matrix_index)
qed

text \<open>
  C3, witness: the theorem at the scenario of the specification. The row of the second frame is row 2
  of the joint matrix, with \<open>0\<close> under the gene \<open>g1\<close> it lacks and its own count
  under \<open>g3\<close>.
\<close>

theorem join_cells_witness:
  "list_all frame_ok
     [\<lparr>index = [''a'', ''b''], columns = [''g1'', ''g2''], values_df = [[1, 2], [3, 4]]\<rparr>,
      \<lparr>index = [''x''], columns = [''g2'', ''g3''], values_df = [[5, 6]]\<rparr>] \<and>
   cells_exact \<lparr>index = [''x''], columns = [''g2'', ''g3''], values_df = [[5, 6]]\<rparr> \<and>
   index (make_joint_matrix
     [\<lparr>index = [''a'', ''b''], columns = [''g1'', ''g2''], values_df = [[1, 2], [3, 4]]\<rparr>,
      \<lparr>index = [''x''], columns = [''g2'', ''g3''], values_df = [[5, 6]]\<rparr>]) ! 2 = ''1&-x'' \<and>
   cell (make_joint_matrix
     [\<lparr>index = [''a'', ''b''], columns = [''g1'', ''g2''], values_df = [[1, 2], [3, 4]]\<rparr>,
      \<lparr>index = [''x''], columns = [''g2'', ''g3''], values_df = [[5, 6]]\<rparr>]) 2 ''g1'' = Some 0 \<and>
   cell (make_joint_matrix
     [\<lparr>index = [''a'', ''b''], columns = [''g1'', ''g2''], values_df = [[1, 2], [3, 4]]\<rparr>,
      \<lparr>index = [''x''], columns = [''g2'', ''g3''], values_df = [[5, 6]]\<rparr>]) 2 ''g3'' = Some 6"
proof -
  let ?cnts = "[\<lparr>index = [''a'', ''b''], columns = [''g1'', ''g2''], values_df = [[1, 2], [3, 4]]\<rparr>,
             \<lparr>index = [''x''], columns = [''g2'', ''g3''], values_df = [[5, 6::int]]\<rparr>]"
  have ok: "list_all frame_ok ?cnts" by code_simp
  have ex: "cells_exact \<lparr>index = [''x''], columns = [''g2'', ''g3''], values_df = [[5, 6]]\<rparr>"
    by code_simp
  then have ex1: "cells_exact (?cnts ! 1)" by simp
  have k: "1 < length ?cnts" by simp
  have r: "0 < length (index (?cnts ! 1))" by simp
  have cols: "columns (make_joint_matrix ?cnts) = [''g1'', ''g2'', ''g3'']" by code_simp
  have g1: "''g1'' \<in> set (columns (make_joint_matrix ?cnts))" by (simp add: cols)
  have g3: "''g3'' \<in> set (columns (make_joint_matrix ?cnts))" by (simp add: cols)
  have off: "row_offset ?cnts 1 + 0 = 2" by (simp add: row_offset_def)
  have s1: "str 1 = ''1''" by code_simp
  have c1: "(if ''g1'' \<in> set (columns (?cnts ! 1)) then cell (?cnts ! 1) 0 ''g1'' else Some 0) = Some 0"
    by simp
  have c3: "(if ''g3'' \<in> set (columns (?cnts ! 1)) then cell (?cnts ! 1) 0 ''g3'' else Some 0) = Some 6"
    by (simp add: cell_def)
  have x: "str 1 @ ''&-'' @ index (?cnts ! 1) ! 0 = ''1&-x''" unfolding s1 by simp
  have a: "index (make_joint_matrix ?cnts) ! 2 = ''1&-x''"
    using join_cells[OF ok k r g1] unfolding off x by blast
  have b: "cell (make_joint_matrix ?cnts) 2 ''g1'' = Some 0"
    using join_cells[OF ok k r g1] ex1 unfolding off c1 by blast
  have c: "cell (make_joint_matrix ?cnts) 2 ''g3'' = Some 6"
    using join_cells[OF ok k r g3] ex1 unfolding off c3 by blast
  show ?thesis using ok ex a b c by (intro conjI)
qed

text \<open>
  C3 as stated fails for a count beyond \<open>2 ^ 53\<close>: the joint matrix is a matrix of
  floating-point numbers (line 73), and the count \<open>2 ^ 53 + 1\<close> of the first frame below
  is stored as \<open>2 ^ 53\<close>.
\<close>

theorem join_large_count_counterexample:
  "cell \<lparr>index = [''a''], columns = [''g1''], values_df = [[9007199254740993]]\<rparr> 0 ''g1''
     = Some 9007199254740993
   \<and> cell (make_joint_matrix
        [\<lparr>index = [''a''], columns = [''g1''], values_df = [[9007199254740993]]\<rparr>,
         \<lparr>index = [''x''], columns = [''g1''], values_df = [[1]]\<rparr>]) 0 ''g1''
     = Some 9007199254740992"
  by code_simp

text \<open>
  C4. The columns of the joint matrix are, as a set, the union of the columns of the
  input frames: none is added and none is missing.
\<close>

theorem join_columns_union:
  "set (columns (make_joint_matrix cnts)) = (\<Union>t\<in>set cnts. set (columns t))"
  by (simp add: make_joint_matrix_columns set_gene_union)

text \<open>
  C5. When no row label contains \<open>&-\<close>, the split of the joint matrix returns the row
  labels of the input frames, character for character and in order: one list of labels for
  every frame that has a row. This is so for every list that has a row at all; for a list
  without any row (the empty list among them) the split returns nothing, it ends in the
  \<open>UnboundLocalError\<close> of line 123. The list has at most \<open>2 ^ 63\<close> frames, as every
  list of Python has: the position of a later frame would not fit the 64-bit cells of
  line 125, and the split would end in \<open>OverflowError\<close>.
\<close>

theorem label_roundtrip:
  assumes "list_all (\<lambda>t. list_all (\<lambda>x. \<not> sublist ''&-'' x) (index t)) cnts"
    and "length cnts \<le> 2 ^ 63"
  shows "if list_all (\<lambda>t. index t = []) cnts
         then split_joint_matrix (make_joint_matrix cnts) = Inl UnboundLocalError
         else (\<exists>S. split_joint_matrix (make_joint_matrix cnts) = Inr S \<and>
                   map index S = filter (\<lambda>l. l \<noteq> []) (map index cnts))"
proof (cases "list_all (\<lambda>t. index t = []) cnts")
  case True
  then have "index (make_joint_matrix cnts) = []"
    by (simp add: make_joint_matrix_index joint_labels_empty)
  then show ?thesis using True by (simp add: split_no_rows)
next
  case False
  then obtain t where t: "t \<in> set cnts" "index t \<noteq> []" by (auto simp: list_all_iff)
  then obtain x where x: "x \<in> set (index t)" by (cases "index t") auto
  have free: "\<not> sublist ''&-'' y" if "u \<in> set cnts" "y \<in> set (index u)" for u y
    using assms(1) that by (auto simp: list_all_iff)
  have ex: "\<exists>t\<in>set cnts. \<exists>x\<in>set (index t). \<not> sublist ''&-'' x" using t x free by blast
  let ?ks = "filter (\<lambda>k. index (cnts ! k) \<noteq> []) [0..<length cnts]"
  let ?S = "map (\<lambda>k. \<lparr>index = map first_piece (index (cnts ! k)),
                     columns = gene_union cnts [],
                     values_df = mask_select (map (\<lambda>i. i = int k) (src_ids 0 cnts))
                                   (values_df (make_joint_matrix cnts))\<rparr>) ?ks"
  have S: "split_joint_matrix (make_joint_matrix cnts) = Inr ?S"
    using ex assms(2) by (rule split_join_labels)
  have fp: "map first_piece (index u) = index u" if "u \<in> set cnts" for u
    using free[OF that] by (simp add: first_piece_sep_free map_idI)
  have "map index ?S = map (\<lambda>k. map first_piece (index (cnts ! k))) ?ks" by (simp add: comp_def)
  also have "\<dots> = map (\<lambda>t. map first_piece (index t)) (filter (\<lambda>t. index t \<noteq> []) cnts)"
    by (rule map_filter_nth)
  also have "\<dots> = map index (filter (\<lambda>t. index t \<noteq> []) cnts)"
    by (rule map_cong[OF refl]) (simp add: fp)
  also have "\<dots> = filter (\<lambda>l. l \<noteq> []) (map index cnts)" by (simp add: filter_map comp_def)
  finally show ?thesis using S False by simp
qed

text \<open>C5, witness: the theorem at the scenario of the specification.\<close>

theorem label_roundtrip_witness:
  "\<exists>S. split_joint_matrix
         (make_joint_matrix
            [\<lparr>index = [''a'', ''b''], columns = [''g1'', ''g2''], values_df = [[1, 2], [3, 4]]\<rparr>,
             \<lparr>index = [''x''], columns = [''g2'', ''g3''], values_df = [[5, 6]]\<rparr>]) = Inr S \<and>
       map index S = [[''a'', ''b''], [''x'']]"
proof -
  let ?cnts = "[\<lparr>index = [''a'', ''b''], columns = [''g1'', ''g2''], values_df = [[1, 2], [3, 4]]\<rparr>,
             \<lparr>index = [''x''], columns = [''g2'', ''g3''], values_df = [[5, 6::int]]\<rparr>]"
  have h: "list_all (\<lambda>t. list_all (\<lambda>x. \<not> sublist ''&-'' x) (index t)) ?cnts"
    by (simp add: sublist_Cons_right)
  have n: "length ?cnts \<le> 2 ^ 63" by simp
  show ?thesis using label_roundtrip[OF h n] by simp
qed

text \<open>
  C6, as amended. \<open>make_joint_matrix\<close> has no check of its argument: on the empty list
  it returns the frame without rows and without columns.
\<close>

theorem join_empty_list:
  "index (make_joint_matrix []) = [] \<and> columns (make_joint_matrix []) = [] \<and>
   values_df (make_joint_matrix []) = []"
  by code_simp

text \<open>
  C6 as stated fails: the empty list is not refused, the result is the degenerate empty
  frame.
\<close>

theorem join_empty_list_counterexample:
  "make_joint_matrix [] = \<lparr>index = [], columns = [], values_df = []\<rparr>"
  by code_simp



text \<open>
  C8, as amended. On a well-formed joint matrix that has a row, the split returns the
  frames of the source indices that occur, in strictly ascending order of the index, and
  the frame of an index holds the rows of that source in the order in which the joint
  matrix has them.
\<close>

theorem split_order:
  assumes "wf_joint jmat" and "index jmat \<noteq> []"
  shows "\<exists>ks. split_joint_matrix jmat = Inr (map (source_rows jmat) ks) \<and>
              sorted_wrt (<) ks \<and> set ks = source_index ` set (index jmat)"
proof -
  note ne = assms(2)
  let ?ix = "index jmat"
  let ?ids = "map source_index ?ix"
  have wf: "wf_key l" if "l \<in> set ?ix" for l
    using assms(1) that by (simp add: wf_joint_def list_all_iff)
  have len2: "length (py_split ''&-'' l) = 2" if "l \<in> set ?ix" for l
    using wf_key_split[OF wf[OF that]] by simp
  have ge: "\<forall>l\<in>set ?ix. 2 \<le> length (py_split ''&-'' l)" using len2 by simp
  have ex: "\<exists>l\<in>set ?ix. length (py_split ''&-'' l) = 2"
    using ne len2 by (cases ?ix) auto
  have ids: "map (\<lambda>l. np_int (py_split ''&-'' l ! 0)) ?ix = map Inr ?ids"
    using wf by (simp add: wf_key_int)
  have names: "map (\<lambda>l. py_split ''&-'' l ! Suc 0) ?ix = map label_part ?ix"
    using wf by (simp add: wf_key_split)
  have frame: "\<lparr>index = map (py_replace ''&-'' ''_'')
                    (mask_select (map (\<lambda>i. i = k) ?ids) (map label_part ?ix)),
                 columns = columns jmat,
                 values_df = mask_select (map (\<lambda>i. i = k) ?ids) (values_df jmat)\<rparr>
               = source_rows jmat k" for k
  proof -
    have 1: "mask_select (map (\<lambda>i. i = k) ?ids) (map label_part ?ix)
             = map label_part (filter (\<lambda>l. source_index l = k) ?ix)"
      using mask_select_map[of "\<lambda>l. source_index l = k" ?ix label_part] by (simp add: comp_def)
    have 2: "map (py_replace ''&-'' ''_'') (map label_part (filter (\<lambda>l. source_index l = k) ?ix))
             = map label_part (filter (\<lambda>l. source_index l = k) ?ix)"
    proof -
      have "py_replace ''&-'' ''_'' (label_part l) = label_part l" if "l \<in> set ?ix" for l
        using wf[OF that] by (intro py_replace_sep_free) (simp add: wf_key_def)
      then show ?thesis by simp
    qed
    have 3: "mask_select (map (\<lambda>i. i = k) ?ids) (values_df jmat)
             = map snd (filter (\<lambda>(l, row). source_index l = k) (zip ?ix (values_df jmat)))"
      using mask_select_zip[of "\<lambda>l. source_index l = k" ?ix "values_df jmat"] by (simp add: comp_def)
    show ?thesis by (simp only: 1 2 3 source_rows_def)
  qed
  have "split_joint_matrix jmat = Inr (map (source_rows jmat) (np_unique ?ids))"
    using split_general[OF ne ge ex ids] by (simp only: names frame)
  moreover have "sorted_wrt (<) (np_unique ?ids)" "set (np_unique ?ids) = source_index ` set ?ix"
    using np_unique_strict[of ?ids] by simp_all
  ultimately show ?thesis by blast
qed

text \<open>
  C8, witness: the theorem at a joint matrix whose sources are interleaved and out of
  order. Source 0 comes first in the result, and the rows \<open>x\<close> and \<open>y\<close> of source 1
  keep their order.
\<close>

theorem split_order_witness:
  "wf_joint \<lparr>index = [''1&-x'', ''0&-a'', ''1&-y''], columns = [''g1''], values_df = [[5], [1], [6]]\<rparr> \<and>
   split_joint_matrix
      \<lparr>index = [''1&-x'', ''0&-a'', ''1&-y''], columns = [''g1''], values_df = [[5], [1], [6]]\<rparr>
     = Inr [\<lparr>index = [''a''], columns = [''g1''], values_df = [[1]]\<rparr>,
            \<lparr>index = [''x'', ''y''], columns = [''g1''], values_df = [[5], [6]]\<rparr>]"
proof -
  let ?j = "\<lparr>index = [''1&-x'', ''0&-a'', ''1&-y''], columns = [''g1''], values_df = [[5], [1], [6::int]]\<rparr>"
  have wf: "wf_joint ?j" by code_simp
  have ne: "index ?j \<noteq> []" by simp
  obtain ks where ks: "split_joint_matrix ?j = Inr (map (source_rows ?j) ks)"
      "sorted_wrt (<) ks" "set ks = source_index ` set (index ?j)"
    using split_order[OF wf ne] by blast
  have s0: "source_index ''0&-a'' = 0" by code_simp
  have s1: "source_index ''1&-x'' = 1" "source_index ''1&-y'' = 1" by code_simp+
  have s: "source_index ` set (index ?j) = {0, 1}"
    using s0 s1 by auto
  have "ks = [0, 1]"
    by (rule strict_sorted_equal) (use ks(2,3) s in auto)
  moreover have "map (source_rows ?j) [0, 1]
        = [\<lparr>index = [''a''], columns = [''g1''], values_df = [[1]]\<rparr>,
           \<lparr>index = [''x'', ''y''], columns = [''g1''], values_df = [[5], [6]]\<rparr>]"
    by code_simp
  ultimately show ?thesis using wf ks(1) by simp
qed

text \<open>
  C8 as stated fails at a joint matrix without rows. It is well formed, it has no label
  that is not a key, and \<open>make_joint_matrix\<close> returns it for a frame without rows; the
  unpacking of line 112 fails on it and the split ends in the \<open>UnboundLocalError\<close> of
  line 123, it returns no list of frames.
\<close>

theorem split_empty_joint_counterexample:
  "wf_joint \<lparr>index = [], columns = [''g1''], values_df = []\<rparr>
   \<and> make_joint_matrix [\<lparr>index = [], columns = [''g1''], values_df = []\<rparr>]
       = \<lparr>index = [], columns = [''g1''], values_df = []\<rparr>
   \<and> split_joint_matrix \<lparr>index = [], columns = [''g1''], values_df = []\<rparr>
       = Inl UnboundLocalError"
  by code_simp

text \<open>
  C9, as amended. \<open>make_joint_matrix\<close> does not inspect the row labels: whatever they
  contain, the row labels of the joint matrix are the labels of the frames, in order, each
  behind the position of its frame and \<open>&-\<close>.
\<close>

theorem join_keeps_labels:
  "index (make_joint_matrix cnts) =
     concat (map (\<lambda>(k, t). map (\<lambda>x. str k @ ''&-'' @ x) (index t)) (enumerate 0 cnts))"
  by (simp add: make_joint_matrix_index joint_labels_def)

text \<open>
  C9 as stated fails: a row label that contains \<open>&-\<close> is accepted, and the joint matrix
  is returned.
\<close>

theorem join_separator_label_counterexample:
  "make_joint_matrix [\<lparr>index = [''a&-b''], columns = [''g''], values_df = [[1]]\<rparr>]
     = \<lparr>index = [''0&-a&-b''], columns = [''g''], values_df = [[1]]\<rparr>"
  by code_simp

text \<open>
  C10, as amended. Let some frame have no row and let some row label, of whatever frame,
  be free of \<open>&-\<close>. Then the split of the joint matrix returns one frame for every
  input frame that has a row, in the order of the input, and so fewer frames than were
  joined: each holds the rows of its frame as the joint matrix has them (the counts as
  floating-point numbers, over the columns of the joint matrix), under the labels of its
  frame up to their first \<open>&-\<close>. The position of a frame without rows is the prefix of
  no row label of the joint matrix. The list has at most \<open>2 ^ 63\<close> frames, as every list
  of Python has.
\<close>

theorem zero_row_sources_dropped:
  assumes "list_all frame_ok cnts"
    and "\<exists>t\<in>set cnts. index t = []"
    and "\<exists>t\<in>set cnts. \<exists>x\<in>set (index t). \<not> sublist ''&-'' x"
    and "length cnts \<le> 2 ^ 63"
  shows "\<exists>S. split_joint_matrix (make_joint_matrix cnts) = Inr S \<and>
             length S < length cnts \<and>
             length S = length (filter (\<lambda>t. index t \<noteq> []) cnts) \<and>
             map index S = map (\<lambda>t. map first_piece (index t)) (filter (\<lambda>t. index t \<noteq> []) cnts) \<and>
             map values_df S = map (joint_rows (columns (make_joint_matrix cnts)))
                                 (filter (\<lambda>t. index t \<noteq> []) cnts) \<and>
             concat (map values_df S) = values_df (make_joint_matrix cnts) \<and>
             (\<forall>k<length cnts. index (cnts ! k) = [] \<longrightarrow>
                Inr (int k) \<notin> set (map (\<lambda>l. np_int (first_piece l)) (index (make_joint_matrix cnts))))"
proof -
  let ?G = "gene_union cnts []"
  let ?F = "\<lambda>t. \<lparr>index = map first_piece (index t), columns = ?G, values_df = joint_rows ?G t\<rparr>"
  let ?ne = "filter (\<lambda>t. index t \<noteq> []) cnts"
  have S: "split_joint_matrix (make_joint_matrix cnts) = Inr (map ?F ?ne)"
    using assms(1,3,4) by (rule split_join_frames)
  obtain t where "t \<in> set cnts" "index t = []" using assms(2) by blast
  then have "length ?ne < length cnts" by (intro length_filter_less[of t]) auto
  moreover have "Inr (int k) \<notin> set (map (\<lambda>l. np_int (first_piece l)) (index (make_joint_matrix cnts)))"
    if "k < length cnts" "index (cnts ! k) = []" for k
    using src_ids_absent[OF that]
    by (auto simp: make_joint_matrix_index joint_labels_first_ids[OF assms(4)])
  moreover have "concat (map values_df (map ?F ?ne)) = values_df (make_joint_matrix cnts)"
  proof -
    have "joint_rows ?G u = []" if "u \<in> set cnts" "\<not> index u \<noteq> []" for u
    proof -
      have "frame_ok u" using assms(1) that(1) by (simp add: list_all_iff)
      then show ?thesis using that(2) by (simp add: frame_ok_def joint_rows_def)
    qed
    then have "concat (map (joint_rows ?G) ?ne) = concat (map (joint_rows ?G) cnts)"
      by (rule concat_map_filter)
    then show ?thesis by (simp add: comp_def make_joint_matrix_values[OF assms(1)])
  qed
  ultimately show ?thesis using S by (simp add: comp_def make_joint_matrix_columns)
qed

text \<open>C10, witness: the theorem at a frame without rows followed by a frame with one row.\<close>

theorem zero_row_sources_dropped_witness:
  "list_all frame_ok
     [\<lparr>index = [], columns = [''g1''], values_df = []\<rparr>,
      \<lparr>index = [''x''], columns = [''g2'', ''g3''], values_df = [[5, 6]]\<rparr>] \<and>
   (\<exists>S. split_joint_matrix
          (make_joint_matrix
             [\<lparr>index = [], columns = [''g1''], values_df = []\<rparr>,
              \<lparr>index = [''x''], columns = [''g2'', ''g3''], values_df = [[5, 6]]\<rparr>]) = Inr S \<and>
        length S = 1 \<and> map index S = [[''x'']] \<and> map values_df S = [[[0, 5, 6]]] \<and>
        Inr 0 \<notin> set (map (\<lambda>l. np_int (first_piece l))
                        (index (make_joint_matrix
                           [\<lparr>index = [], columns = [''g1''], values_df = []\<rparr>,
                            \<lparr>index = [''x''], columns = [''g2'', ''g3''], values_df = [[5, 6]]\<rparr>]))))"
proof -
  let ?cnts = "[\<lparr>index = [], columns = [''g1''], values_df = []\<rparr>,
              \<lparr>index = [''x''], columns = [''g2'', ''g3''], values_df = [[5, 6::int]]\<rparr>]"
  have ok: "list_all frame_ok ?cnts" by code_simp
  have z: "\<exists>t\<in>set ?cnts. index t = []" by simp
  have f: "\<exists>t\<in>set ?cnts. \<exists>x\<in>set (index t). \<not> sublist ''&-'' x" by (simp add: sublist_Cons_right)
  have n: "length ?cnts \<le> 2 ^ 63" by simp
  have cols: "columns (make_joint_matrix ?cnts) = [''g1'', ''g2'', ''g3'']" by code_simp
  have fp: "first_piece ''x'' = ''x''" by code_simp
  have jr: "joint_rows [''g1'', ''g2'', ''g3'']
              \<lparr>index = [''x''], columns = [''g2'', ''g3''], values_df = [[5, 6]]\<rparr> = [[0, 5, 6]]"
    by code_simp
  obtain S where S: "split_joint_matrix (make_joint_matrix ?cnts) = Inr S"
      "length S = length (filter (\<lambda>t. index t \<noteq> []) ?cnts)"
      "map index S = map (\<lambda>t. map first_piece (index t)) (filter (\<lambda>t. index t \<noteq> []) ?cnts)"
      "map values_df S = map (joint_rows (columns (make_joint_matrix ?cnts)))
                                 (filter (\<lambda>t. index t \<noteq> []) ?cnts)"
      "\<forall>k<length ?cnts. index (?cnts ! k) = [] \<longrightarrow>
         Inr (int k) \<notin> set (map (\<lambda>l. np_int (first_piece l)) (index (make_joint_matrix ?cnts)))"
    using zero_row_sources_dropped[OF ok z f n] by blast
  have "length S = 1" using S(2) by simp
  moreover have "map index S = [[''x'']]" using S(3) by (simp add: fp)
  moreover have "map values_df S = [[[0, 5, 6]]]" using S(4) by (simp add: cols jr)
  moreover have "Inr 0 \<notin> set (map (\<lambda>l. np_int (first_piece l)) (index (make_joint_matrix ?cnts)))"
    using S(5)[rule_format, of 0] by simp
  ultimately show ?thesis using ok S(1) by (intro conjI exI[of _ S]) simp_all
qed

text \<open>
  C10 as stated fails when no frame has a row: the joint matrix has no row label, the
  unpacking of line 112 fails, and the split ends in \<open>UnboundLocalError\<close> instead of
  returning the empty list.
\<close>

theorem zero_rows_only_counterexample:
  "split_joint_matrix (make_joint_matrix [\<lparr>index = [], columns = [''g1''], values_df = []\<rparr>])
     = Inl UnboundLocalError"
  by code_simp

end
